theory Spec2Isabelle
  imports Main "HOL-Library.Char_ord" "HOL-Library.List_Lexorder"
begin

section \<open>Qt value types used by the host\<close>

text \<open>
  A \<open>QString\<close> is either null (\<open>QString()\<close>) or holds a sequence of code units, which
  may be empty. Code units are modelled by \<^typ>\<open>char\<close>; no definition below depends on
  their width. Qt's comparison operators look at the code units only, so a null string
  and an empty string compare equal.
\<close>

datatype qstring = NullQString | QString string

fun constData :: "qstring \<Rightarrow> string" where
  "constData NullQString = []"
| "constData (QString cs) = cs"

definition size_QString :: "qstring \<Rightarrow> nat" where
  "size_QString str = length (constData str)"

definition isEmpty :: "qstring \<Rightarrow> bool" where
  "isEmpty str = (size_QString str = 0)"

text \<open>\<open>QString(const QChar *unicode, qsizetype size)\<close>: the first \<open>size\<close> code units.\<close>

definition QString_from :: "string \<Rightarrow> nat \<Rightarrow> qstring" where
  "QString_from unicode n = QString (take n unicode)"

text \<open>\<open>operator==\<close> and \<open>operator<\<close> of \<open>QString\<close>.\<close>

definition qstring_equal :: "qstring \<Rightarrow> qstring \<Rightarrow> bool" where
  "qstring_equal a b = (constData a = constData b)"

definition qstring_less :: "qstring \<Rightarrow> qstring \<Rightarrow> bool" where
  "qstring_less a b = (constData a < constData b)"

text \<open>A \<open>QByteArray\<close> has the same null/empty distinction, over bytes.\<close>

datatype qbytearray = NullQByteArray | QByteArray "char list"

fun constData_QByteArray :: "qbytearray \<Rightarrow> char list" where
  "constData_QByteArray NullQByteArray = []"
| "constData_QByteArray (QByteArray bs) = bs"

definition size_QByteArray :: "qbytearray \<Rightarrow> nat" where
  "size_QByteArray ba = length (constData_QByteArray ba)"

definition isEmpty_QByteArray :: "qbytearray \<Rightarrow> bool" where
  "isEmpty_QByteArray ba = (size_QByteArray ba = 0)"

definition QByteArray_from :: "char list \<Rightarrow> nat \<Rightarrow> qbytearray" where
  "QByteArray_from bytes n = QByteArray (take n bytes)"

definition qbytearray_equal :: "qbytearray \<Rightarrow> qbytearray \<Rightarrow> bool" where
  "qbytearray_equal a b = (constData_QByteArray a = constData_QByteArray b)"

text \<open>
  A \<open>QVariant\<close> is invalid or holds a value of one meta type. The five kinds that
  \<open>deepCopy\<close> distinguishes have a constructor each; \<open>VBool\<close> and \<open>VInt\<close> are the primitive
  kinds the menu service reads, and \<open>VOther t p\<close> stands for a value of any other meta
  type \<open>t\<close> with an opaque payload \<open>p\<close>. A \<open>QVariantMap\<close> (\<open>QMap<QString, QVariant>\<close>) is
  the list of its entries in iteration order, that is in ascending key order; a
  \<open>QVariantList\<close> is a list.
\<close>

datatype qvariant =
    VInvalid
  | VBool bool
  | VInt int
  | VOther nat nat
  | VString qstring
  | VStringList "qstring list"
  | VByteArray qbytearray
  | VMap "(qstring \<times> qvariant) list"
  | VList "qvariant list"

type_synonym qstringlist = "qstring list"
type_synonym qvariantmap = "(qstring \<times> qvariant) list"
type_synonym qvariantlist = "qvariant list"

text \<open>
  \<open>QMap::insert\<close>: the entry goes to its place in key order; where an equivalent key is
  present its value is replaced and the stored key stays.
\<close>

fun QMap_insert :: "qstring \<Rightarrow> 'v \<Rightarrow> (qstring \<times> 'v) list \<Rightarrow> (qstring \<times> 'v) list" where
  "QMap_insert k v [] = [(k, v)]"
| "QMap_insert k v ((k', v') # rest) =
     (if qstring_less k k' then (k, v) # (k', v') # rest
      else if qstring_less k' k then (k', v') # QMap_insert k v rest
      else (k', v) # rest)"

fun QMap_find :: "(qstring \<times> 'v) list \<Rightarrow> qstring \<Rightarrow> 'v option" where
  "QMap_find [] k = None"
| "QMap_find ((k', v') # rest) k = (if qstring_equal k' k then Some v' else QMap_find rest k)"

definition QMap_contains :: "(qstring \<times> 'v) list \<Rightarrow> qstring \<Rightarrow> bool" where
  "QMap_contains m k = (QMap_find m k \<noteq> None)"

text \<open>\<open>QMap::value(key, defaultValue)\<close>, which the const \<open>operator[]\<close> returns.\<close>

definition QMap_value :: "(qstring \<times> 'v) list \<Rightarrow> qstring \<Rightarrow> 'v \<Rightarrow> 'v" where
  "QMap_value m k dflt = (case QMap_find m k of None \<Rightarrow> dflt | Some v \<Rightarrow> v)"

definition QMap_remove :: "qstring \<Rightarrow> (qstring \<times> 'v) list \<Rightarrow> (qstring \<times> 'v) list" where
  "QMap_remove k m = filter (\<lambda>e. \<not> qstring_equal (fst e) k) m"

text \<open>
  The representation invariant of a \<open>QMap\<close>: keys strictly ascending. A variant is well
  formed when every map inside it is.
\<close>

fun QMap_sorted :: "(qstring \<times> 'v) list \<Rightarrow> bool" where
  "QMap_sorted [] = True"
| "QMap_sorted [e] = True"
| "QMap_sorted (e # e' # rest) = (qstring_less (fst e) (fst e') \<and> QMap_sorted (e' # rest))"

fun wellformed :: "qvariant \<Rightarrow> bool" where
  "wellformed (VMap m) = (QMap_sorted m \<and> list_all (\<lambda>(k, v). wellformed v) m)"
| "wellformed (VList l) = list_all wellformed l"
| "wellformed var = True"

text \<open>
  Value equality of variants, as \<open>QVariant::operator==\<close> computes it for two variants
  of the same kind through the equality of the held type: strings and byte arrays by
  content, lists element by element, maps entry by entry. Variants of different kinds
  are not related here (Qt's numeric conversions between kinds are left out).
\<close>

fun equals :: "qvariant \<Rightarrow> qvariant \<Rightarrow> bool" where
  "equals VInvalid other = (other = VInvalid)"
| "equals (VBool a) other = (other = VBool a)"
| "equals (VInt a) other = (other = VInt a)"
| "equals (VOther t a) other = (other = VOther t a)"
| "equals (VString a) other = (case other of VString b \<Rightarrow> qstring_equal a b | _ \<Rightarrow> False)"
| "equals (VStringList a) other =
     (case other of VStringList b \<Rightarrow> list_all2 qstring_equal a b | _ \<Rightarrow> False)"
| "equals (VByteArray a) other =
     (case other of VByteArray b \<Rightarrow> qbytearray_equal a b | _ \<Rightarrow> False)"
| "equals (VMap a) other =
     (case other of
        VMap b \<Rightarrow> list_all2 (\<lambda>(k, v) (k', v'). qstring_equal k k' \<and> equals v v') a b
      | _ \<Rightarrow> False)"
| "equals (VList a) other = (case other of VList b \<Rightarrow> list_all2 equals a b | _ \<Rightarrow> False)"

text \<open>
  \<open>QVariant::toString\<close>, \<open>toInt\<close> and \<open>toBool\<close>. A variant that holds the requested type
  returns it, an invalid variant returns the default-constructed value; how Qt converts
  a value of another kind is library code and is a parameter of the model.
\<close>

record qt_convert =
  convert_toString :: "qvariant \<Rightarrow> qstring"
  convert_toInt :: "qvariant \<Rightarrow> int"
  convert_toBool :: "qvariant \<Rightarrow> bool"

definition toString :: "qt_convert \<Rightarrow> qvariant \<Rightarrow> qstring" where
  "toString cv var =
     (case var of VString s \<Rightarrow> s | VInvalid \<Rightarrow> NullQString | _ \<Rightarrow> convert_toString cv var)"

definition toInt :: "qt_convert \<Rightarrow> qvariant \<Rightarrow> int" where
  "toInt cv var = (case var of VInt n \<Rightarrow> n | VInvalid \<Rightarrow> 0 | _ \<Rightarrow> convert_toInt cv var)"

definition toBool :: "qt_convert \<Rightarrow> qvariant \<Rightarrow> bool" where
  "toBool cv var = (case var of VBool b \<Rightarrow> b | VInvalid \<Rightarrow> False | _ \<Rightarrow> convert_toBool cv var)"

text \<open>Messages written through \<open>qDebug()\<close> and \<open>qWarning()\<close>: the level and the streamed parts.\<close>

datatype QtMsgType = QtDebugMsg | QtWarningMsg | QtCriticalMsg | QtFatalMsg

type_synonym message = "QtMsgType \<times> qstring list"

section \<open>cross\_dll\_safety.h\<close>

definition deepCopy_QString :: "qstring \<Rightarrow> qstring" where
  "deepCopy_QString str =
     (if isEmpty str then NullQString else QString_from (constData str) (size_QString str))"

definition deepCopy_QStringList :: "qstringlist \<Rightarrow> qstringlist" where
  "deepCopy_QStringList l = map deepCopy_QString l"

definition deepCopy_QByteArray :: "qbytearray \<Rightarrow> qbytearray" where
  "deepCopy_QByteArray ba =
     (if isEmpty_QByteArray ba then NullQByteArray
      else QByteArray_from (constData_QByteArray ba) (size_QByteArray ba))"

text \<open>
  The three mutually recursive overloads. The loop over a map inserts the copied entries
  one by one into a result that starts empty; the loop over a list appends.
\<close>

fun deepCopy_QVariantMap :: "qvariantmap \<Rightarrow> qvariantmap"
and deepCopy_QVariantList :: "qvariantlist \<Rightarrow> qvariantlist"
and deepCopy :: "qvariant \<Rightarrow> qvariant" where
  "deepCopy_QVariantMap m =
     foldl (\<lambda>result (k, v). QMap_insert (deepCopy_QString k) (deepCopy v) result) [] m"
| "deepCopy_QVariantList l = map deepCopy l"
| "deepCopy VInvalid = VInvalid"
| "deepCopy (VString s) = VString (deepCopy_QString s)"
| "deepCopy (VStringList l) = VStringList (deepCopy_QStringList l)"
| "deepCopy (VByteArray ba) = VByteArray (deepCopy_QByteArray ba)"
| "deepCopy (VMap m) = VMap (deepCopy_QVariantMap m)"
| "deepCopy (VList l) = VList (deepCopy_QVariantList l)"
| "deepCopy var = var"

text \<open>The two loops are unfolded by name in the proofs, not by the simplifier.\<close>

declare deepCopy_QVariantMap.simps [simp del] deepCopy_QVariantList.simps [simp del]

section \<open>navigation\_service.cpp\<close>

record RouteEntry =
  pattern :: qstring
  pageUrl :: qstring

text \<open>
  The service's members and, as \<open>nav_log\<close>, the messages it has written. The engine
  pointer is not read by the operations below.
\<close>

record navigation_service =
  m_currentRoute :: qstring
  m_routes :: "RouteEntry list"
  nav_log :: "message list"

definition NavigationService :: navigation_service where
  "NavigationService = \<lparr>m_currentRoute = NullQString, m_routes = [], nav_log = []\<rparr>"

definition registerRoute :: "qstring \<Rightarrow> qstring \<Rightarrow> navigation_service \<Rightarrow> navigation_service" where
  "registerRoute route qmlPageUrl s =
     (let entry = \<lparr>pattern = deepCopy_QString route, pageUrl = deepCopy_QString qmlPageUrl\<rparr>
      in s\<lparr>m_routes := m_routes s @ [entry],
            nav_log := nav_log s @
              [(QtDebugMsg, [QString ''NavigationService: Registered route'', route,
                             QString ''->'', qmlPageUrl])]\<rparr>)"

text \<open>The loop of \<open>getPageUrl\<close>: the returned string and the message written.\<close>

fun getPageUrl_loop :: "RouteEntry list \<Rightarrow> qstring \<Rightarrow> qstring \<times> message" where
  "getPageUrl_loop [] route =
     (NullQString,
      (QtWarningMsg, [QString ''NavigationService: No page URL found for route:'', route]))"
| "getPageUrl_loop (entry # rest) route =
     (if qstring_equal (pattern entry) route
      then (deepCopy_QString (pageUrl entry),
            (QtDebugMsg, [QString ''NavigationService: getPageUrl'', route,
                          QString ''->'', pageUrl entry]))
      else getPageUrl_loop rest route)"

definition getPageUrl :: "qstring \<Rightarrow> navigation_service \<Rightarrow> qstring \<times> navigation_service" where
  "getPageUrl route s =
     (let (url, msg) = getPageUrl_loop (m_routes s) route
      in (url, s\<lparr>nav_log := nav_log s @ [msg]\<rparr>))"

text \<open>A sequence of \<open>registerRoute\<close> calls, each given as (pattern, page URL).\<close>

definition registerRoutes :: "(qstring \<times> qstring) list \<Rightarrow> navigation_service \<Rightarrow> navigation_service" where
  "registerRoutes calls s = foldl (\<lambda>s' (route, url). registerRoute route url s') s calls"

section \<open>menu\_service.cpp\<close>

text \<open>
  The fields of \<open>MenuItem\<close> that \<open>deepCopyItem\<close> copies. \<open>order\<close> is a C++ \<open>int\<close>; it is
  only assigned and compared, never computed with, and is modelled by \<^typ>\<open>int\<close>. The
  fields \<open>id\<close> and \<open>group\<close> carry a suffix because HOL has constants of these names.
\<close>

record MenuItem =
  id_MenuItem :: qstring
  label :: qstring
  icon :: qstring
  route :: qstring
  group_MenuItem :: qstring
  order :: int
  enabled :: bool
  badge :: qstring
  pluginId :: qstring

definition deepCopyItem :: "MenuItem \<Rightarrow> MenuItem" where
  "deepCopyItem item =
     \<lparr>id_MenuItem = deepCopy_QString (id_MenuItem item),
      label = deepCopy_QString (label item),
      icon = deepCopy_QString (icon item),
      route = deepCopy_QString (route item),
      group_MenuItem = deepCopy_QString (group_MenuItem item),
      order = order item,
      enabled = enabled item,
      badge = deepCopy_QString (badge item),
      pluginId = deepCopy_QString (pluginId item)\<rparr>"

text \<open>
  The service's members, the number of times \<open>menuChanged\<close> has been emitted, and the
  messages written. The mutex is not modelled: calls are taken one at a time. The index
  map is only asked \<open>contains\<close>, \<open>operator[]\<close>, \<open>remove\<close> and \<open>clear\<close>, so the list of its
  entries models it whether it is a \<open>QMap\<close> or a \<open>QHash\<close>.
\<close>

record menu_service =
  m_items :: "MenuItem list"
  m_indexMap :: "(qstring \<times> nat) list"
  menuChanged :: nat
  menu_log :: "message list"

definition MenuService :: menu_service where
  "MenuService = \<lparr>m_items = [], m_indexMap = [], menuChanged = 0, menu_log = []\<rparr>"

text \<open>The comparison that \<open>sortItems\<close> passes to \<open>std::stable_sort\<close>.\<close>

definition sortItems_less :: "MenuItem \<Rightarrow> MenuItem \<Rightarrow> bool" where
  "sortItems_less a b =
     (if \<not> qstring_equal (group_MenuItem a) (group_MenuItem b)
      then qstring_less (group_MenuItem a) (group_MenuItem b)
      else if order a \<noteq> order b then order a < order b
      else qstring_less (label a) (label b))"

text \<open>
  \<open>std::stable_sort\<close>: the sorted arrangement in which equivalent elements keep their
  order. Each element, from the last to the first, is put before the first element of
  the sorted rest that is not less than it.
\<close>

fun stable_insert :: "('a \<Rightarrow> 'a \<Rightarrow> bool) \<Rightarrow> 'a \<Rightarrow> 'a list \<Rightarrow> 'a list" where
  "stable_insert cmp x [] = [x]"
| "stable_insert cmp x (y # ys) =
     (if cmp y x then y # stable_insert cmp x ys else x # y # ys)"

definition stable_sort :: "('a \<Rightarrow> 'a \<Rightarrow> bool) \<Rightarrow> 'a list \<Rightarrow> 'a list" where
  "stable_sort cmp xs = foldr (stable_insert cmp) xs []"

definition sortItems :: "menu_service \<Rightarrow> menu_service" where
  "sortItems s = s\<lparr>m_items := stable_sort sortItems_less (m_items s)\<rparr>"

text \<open>\<open>m_indexMap.clear()\<close> and the loop that stores every item's position under its id.\<close>

definition rebuildIndexMap :: "menu_service \<Rightarrow> menu_service" where
  "rebuildIndexMap s =
     s\<lparr>m_indexMap :=
         foldl (\<lambda>m i. QMap_insert (id_MenuItem (m_items s ! i)) i m) [] [0..<length (m_items s)]\<rparr>"

definition emit_menuChanged :: "menu_service \<Rightarrow> menu_service" where
  "emit_menuChanged s = s\<lparr>menuChanged := menuChanged s + 1\<rparr>"

definition qWarning :: "qstring list \<Rightarrow> menu_service \<Rightarrow> menu_service" where
  "qWarning parts s = s\<lparr>menu_log := menu_log s @ [(QtWarningMsg, parts)]\<rparr>"

definition qDebug :: "qstring list \<Rightarrow> menu_service \<Rightarrow> menu_service" where
  "qDebug parts s = s\<lparr>menu_log := menu_log s @ [(QtDebugMsg, parts)]\<rparr>"

definition registerItem :: "MenuItem \<Rightarrow> menu_service \<Rightarrow> bool \<times> menu_service" where
  "registerItem item s =
     (if isEmpty (id_MenuItem item)
      then (False, qWarning [QString ''MenuService: Cannot register item with empty ID''] s)
      else if QMap_contains (m_indexMap s) (id_MenuItem item)
      then (False, qWarning [QString ''MenuService: Item already registered:'', id_MenuItem item] s)
      else
        let s1 = s\<lparr>m_items := m_items s @ [deepCopyItem item]\<rparr>;
            s2 = sortItems s1;
            s3 = rebuildIndexMap s2;
            s4 = qDebug [QString ''MenuService: Registered'', id_MenuItem item,
                         QString ''from'', pluginId item] s3
        in (True, emit_menuChanged s4))"

text \<open>
  \<open>std::find_if\<close> as the position of the first match, the length of the list standing
  for \<open>end()\<close>; \<open>erase\<close> of one position.
\<close>

fun find_if :: "('a \<Rightarrow> bool) \<Rightarrow> 'a list \<Rightarrow> nat" where
  "find_if P [] = 0"
| "find_if P (x # xs) = (if P x then 0 else Suc (find_if P xs))"

definition erase :: "nat \<Rightarrow> 'a list \<Rightarrow> 'a list" where
  "erase i xs = take i xs @ drop (Suc i) xs"

definition unregisterItem :: "qstring \<Rightarrow> menu_service \<Rightarrow> menu_service" where
  "unregisterItem ident s =
     (let it = find_if (\<lambda>item. qstring_equal (id_MenuItem item) ident) (m_items s)
      in if it \<noteq> length (m_items s)
         then
           let s1 = s\<lparr>m_items := erase it (m_items s)\<rparr>;
               s2 = s1\<lparr>m_indexMap := QMap_remove ident (m_indexMap s1)\<rparr>;
               s3 = rebuildIndexMap s2
           in emit_menuChanged s3
         else s)"

text \<open>
  \<open>std::remove_if\<close> moves the elements to keep to the front, in their order, and returns
  the end of that range; \<open>remove_if\<close> is the range kept, so the iterator returned is its
  length. The elements behind it are erased whenever there are any.
\<close>

definition remove_if :: "('a \<Rightarrow> bool) \<Rightarrow> 'a list \<Rightarrow> 'a list" where
  "remove_if P xs = filter (\<lambda>x. \<not> P x) xs"

definition unregisterPlugin :: "qstring \<Rightarrow> menu_service \<Rightarrow> menu_service" where
  "unregisterPlugin plugin s =
     (let kept = remove_if (\<lambda>item. qstring_equal (pluginId item) plugin) (m_items s);
          it = length kept
      in if it \<noteq> length (m_items s)
         then
           let s1 = s\<lparr>m_items := kept\<rparr>;
               s2 = rebuildIndexMap s1
           in emit_menuChanged s2
         else s)"

text \<open>
  \<open>MenuItem& item = m_items[idx]\<close> names the slot \<open>idx\<close> of the list, and every assignment
  through it writes to whatever item is in that slot at that moment. \<open>assign\<close> is one
  such assignment. \<open>QList::operator[]\<close> requires the index to be in range; the model
  returns \<open>None\<close> where it is not.
\<close>

definition assign :: "nat \<Rightarrow> (MenuItem \<Rightarrow> MenuItem) \<Rightarrow> menu_service \<Rightarrow> menu_service" where
  "assign idx f s = s\<lparr>m_items := (m_items s)[idx := f (m_items s ! idx)]\<rparr>"

definition updateItem ::
  "qt_convert \<Rightarrow> qstring \<Rightarrow> qvariantmap \<Rightarrow> menu_service \<Rightarrow> (bool \<times> menu_service) option" where
  "updateItem cv ident updates s =
     (if \<not> QMap_contains (m_indexMap s) ident then Some (False, s)
      else
        let idx = QMap_value (m_indexMap s) ident 0
        in if \<not> idx < length (m_items s) then None
           else
             let s1 = (if QMap_contains updates (QString ''title'')
                       then assign idx (\<lambda>item. item\<lparr>label :=
                              toString cv (QMap_value updates (QString ''label'') VInvalid)\<rparr>) s
                       else s);
                 s2 = (if QMap_contains updates (QString ''icon'')
                       then assign idx (\<lambda>item. item\<lparr>icon :=
                              toString cv (QMap_value updates (QString ''icon'') VInvalid)\<rparr>) s1
                       else s1);
                 s3 = (if QMap_contains updates (QString ''route'')
                       then assign idx (\<lambda>item. item\<lparr>route :=
                              toString cv (QMap_value updates (QString ''route'') VInvalid)\<rparr>) s2
                       else s2);
                 s4 = (if QMap_contains updates (QString ''order'')
                       then rebuildIndexMap (sortItems
                              (assign idx (\<lambda>item. item\<lparr>order :=
                                 toInt cv (QMap_value updates (QString ''order'') VInvalid)\<rparr>) s3))
                       else s3);
                 s5 = (if QMap_contains updates (QString ''enabled'')
                       then assign idx (\<lambda>item. item\<lparr>enabled :=
                              toBool cv (QMap_value updates (QString ''enabled'') VInvalid)\<rparr>) s4
                       else s4);
                 s6 = (if QMap_contains updates (QString ''badge'')
                       then assign idx (\<lambda>item. item\<lparr>badge :=
                              toString cv (QMap_value updates (QString ''badge'') VInvalid)\<rparr>) s5
                       else s5);
                 s7 = (if QMap_contains updates (QString ''group'')
                       then assign idx (\<lambda>item. item\<lparr>group_MenuItem :=
                              toString cv (QMap_value updates (QString ''group'') VInvalid)\<rparr>) s6
                       else s6)
             in Some (True, emit_menuChanged s7))"

definition items :: "menu_service \<Rightarrow> MenuItem list" where
  "items s = map deepCopyItem (m_items s)"

section \<open>The plugin manager\<close>

text \<open>
  Modelled from the spec: the lifecycle states of a module (section 4.3). The plugin
  manager (\<open>plugin_manager.h\<close>, \<open>plugin_manager.cpp\<close>) is not among the sources; only its
  caller \<open>application.cpp\<close> is.
\<close>

datatype plugin_state = Discovered | Loaded | Initialized | Started | Stopped | Unloaded | Failed

text \<open>
  Modelled from the spec: the record the manager keeps for a module: the identity and
  priority of its descriptor and its state. The three flags say how the module's binary
  behaves: whether its factory entry point resolves, and whether its \<open>initialize\<close> and
  \<open>start\<close> steps succeed.
\<close>

record module_record =
  module_id :: string
  priority :: int
  module_state :: plugin_state
  entry_point_ok :: bool
  initialize_ok :: bool
  start_ok :: bool

text \<open>
  Modelled from the spec: the five batch phases of the lifecycle (section 4.3); the
  manager's code is not among the sources.
\<close>

datatype phase = Load | Initialize | Start | Stop | Unload

text \<open>
  Modelled from the spec: what the manager has done, in order: \<open>Call ph\<close> when the batch
  operation of a phase is invoked, \<open>Step ph i\<close> when the step of that phase is attempted
  on the module \<open>i\<close>.
\<close>

datatype pm_event = Call phase | Step phase string

text \<open>
  Modelled from the spec: the manager holds its modules in the order in which every
  phase visits them, ascending priority with ties in discovery order.
\<close>

record plugin_manager =
  modules :: "module_record list"
  trace :: "pm_event list"

text \<open>
  Modelled from the spec: a newly constructed manager, which has discovered no module and
  done nothing; its constructor is not among the sources.
\<close>

definition PluginManager :: plugin_manager where
  "PluginManager = \<lparr>modules = [], trace = []\<rparr>"

text \<open>
  Modelled from the spec: a new module goes behind the modules whose priority is not
  higher than its own.
\<close>

fun insert_by_priority :: "module_record \<Rightarrow> module_record list \<Rightarrow> module_record list" where
  "insert_by_priority m [] = [m]"
| "insert_by_priority m (x # xs) =
     (if priority m < priority x then m # x # xs else x # insert_by_priority m xs)"

text \<open>
  Modelled from the spec: \<open>discover(path)\<close>, given the modules whose binaries the directory
  holds. A module whose id is already known is rejected, the others are recorded as
  \<open>Discovered\<close>; the result is the number recorded.
\<close>

definition discover :: "module_record list \<Rightarrow> plugin_manager \<Rightarrow> nat \<times> plugin_manager" where
  "discover found pm =
     foldl (\<lambda>(n, pm') d.
              if module_id d \<in> set (map module_id (modules pm')) then (n, pm')
              else (n + 1,
                    pm'\<lparr>modules := insert_by_priority (d\<lparr>module_state := Discovered\<rparr>) (modules pm')\<rparr>))
           (0, pm) found"

text \<open>
  Modelled from the spec: the loop of \<open>loadAll\<close>, \<open>initializeAll\<close> and \<open>startAll\<close>. Every
  module in the state \<open>src\<close> has its step attempted: success takes it to \<open>dst\<close>, failure
  to \<open>Failed\<close>, and the loop goes on to the next module either way. The flag returned is
  true only if every attempted step succeeded.
\<close>

fun phase_loop ::
  "phase \<Rightarrow> plugin_state \<Rightarrow> plugin_state \<Rightarrow> (module_record \<Rightarrow> bool) \<Rightarrow> module_record list
   \<Rightarrow> bool \<times> module_record list \<times> pm_event list" where
  "phase_loop ph src dst ok [] = (True, [], [])"
| "phase_loop ph src dst ok (m # ms) =
     (let (success, ms', steps) = phase_loop ph src dst ok ms
      in if module_state m \<noteq> src then (success, m # ms', steps)
         else if ok m then (success, m\<lparr>module_state := dst\<rparr> # ms', Step ph (module_id m) # steps)
         else (False, m\<lparr>module_state := Failed\<rparr> # ms', Step ph (module_id m) # steps))"

text \<open>
  Modelled from the spec: a batch operation of the manager, which runs the loop over its
  modules and returns the aggregate flag; the trace records the call and the steps.
\<close>

definition run_phase ::
  "phase \<Rightarrow> plugin_state \<Rightarrow> plugin_state \<Rightarrow> (module_record \<Rightarrow> bool) \<Rightarrow> plugin_manager
   \<Rightarrow> bool \<times> plugin_manager" where
  "run_phase ph src dst ok pm =
     (let (success, ms', steps) = phase_loop ph src dst ok (modules pm)
      in (success, pm\<lparr>modules := ms', trace := trace pm @ Call ph # steps\<rparr>))"

text \<open>Modelled from the spec: \<open>loadAll\<close>, from \<open>Discovered\<close> to \<open>Loaded\<close>.\<close>

definition loadAll :: "plugin_manager \<Rightarrow> bool \<times> plugin_manager" where
  "loadAll pm = run_phase Load Discovered Loaded entry_point_ok pm"

text \<open>Modelled from the spec: \<open>initializeAll\<close>, from \<open>Loaded\<close> to \<open>Initialized\<close>.\<close>

definition initializeAll :: "plugin_manager \<Rightarrow> bool \<times> plugin_manager" where
  "initializeAll pm = run_phase Initialize Loaded Initialized initialize_ok pm"

text \<open>Modelled from the spec: \<open>startAll\<close>, from \<open>Initialized\<close> to \<open>Started\<close>.\<close>

definition startAll :: "plugin_manager \<Rightarrow> bool \<times> plugin_manager" where
  "startAll pm = run_phase Start Initialized Started start_ok pm"

text \<open>
  Modelled from the spec: \<open>stopAll\<close> stops every \<open>Started\<close> module, in reverse order.
\<close>

definition stopAll :: "plugin_manager \<Rightarrow> plugin_manager" where
  "stopAll pm =
     pm\<lparr>modules := map (\<lambda>m. if module_state m = Started then m\<lparr>module_state := Stopped\<rparr> else m)
                       (modules pm),
        trace := trace pm @ Call Stop #
                 map (\<lambda>m. Step Stop (module_id m))
                     (rev (filter (\<lambda>m. module_state m = Started) (modules pm)))\<rparr>"

text \<open>
  Modelled from the spec: \<open>unloadAll\<close> unloads every \<open>Stopped\<close> or \<open>Failed\<close> module, in
  reverse order.
\<close>

definition unloadAll :: "plugin_manager \<Rightarrow> plugin_manager" where
  "unloadAll pm =
     pm\<lparr>modules := map (\<lambda>m. if module_state m = Stopped \<or> module_state m = Failed
                            then m\<lparr>module_state := Unloaded\<rparr> else m)
                       (modules pm),
        trace := trace pm @ Call Unload #
                 map (\<lambda>m. Step Unload (module_id m))
                     (rev (filter (\<lambda>m. module_state m = Stopped \<or> module_state m = Failed)
                                  (modules pm)))\<rparr>"

section \<open>application.cpp\<close>

text \<open>
  The members of \<open>Application\<close> that \<open>loadPlugins\<close> and the destructor read and write. The
  plugin manager is absent until \<open>loadPlugins\<close> creates it.
\<close>

record application =
  m_extraPluginPaths :: "qstring list"
  m_pluginPath :: qstring
  m_pluginManager :: "plugin_manager option"

text \<open>
  \<open>Application::loadPlugins\<close>. The parameter \<open>dir\<close> is the file system: the modules whose
  binaries a directory holds. The messages written and the final loop over the QML
  module URIs, which only writes messages, are left out.
\<close>

definition loadPlugins :: "(qstring \<Rightarrow> module_record list) \<Rightarrow> application \<Rightarrow> application" where
  "loadPlugins dir app =
     (let pm0 = PluginManager;
          pm1 = foldl (\<lambda>pm path. snd (discover (dir path) pm)) pm0 (m_extraPluginPaths app);
          pm2 = snd (discover (dir (m_pluginPath app)) pm1);
          (loaded, pm3) = loadAll pm2;
          pm5 = (if loaded
                 then (let (initialized, pm4) = initializeAll pm3
                       in if initialized then snd (startAll pm4) else pm4)
                 else pm3)
      in app\<lparr>m_pluginManager := Some pm5\<rparr>)"

text \<open>The modules as discovery leaves them, before the first phase.\<close>

definition discovered :: "(qstring \<Rightarrow> module_record list) \<Rightarrow> application \<Rightarrow> plugin_manager" where
  "discovered dir app =
     snd (discover (dir (m_pluginPath app))
            (foldl (\<lambda>pm path. snd (discover (dir path) pm)) PluginManager (m_extraPluginPaths app)))"

text \<open>\<open>Application::~Application\<close>.\<close>

definition Application_dtor :: "application \<Rightarrow> application" where
  "Application_dtor app =
     (case m_pluginManager app of
        None \<Rightarrow> app
      | Some pm \<Rightarrow> app\<lparr>m_pluginManager := Some (unloadAll (stopAll pm))\<rparr>)"

section \<open>Observations used to state the properties\<close>

text \<open>The batch operations a trace records, and the modules on which a step was attempted.\<close>

fun calls_of :: "pm_event list \<Rightarrow> phase list" where
  "calls_of [] = []"
| "calls_of (Call ph # es) = ph # calls_of es"
| "calls_of (Step ph i # es) = calls_of es"

fun steps_of :: "phase \<Rightarrow> pm_event list \<Rightarrow> string list" where
  "steps_of ph [] = []"
| "steps_of ph (Call ph' # es) = steps_of ph es"
| "steps_of ph (Step ph' i # es) = (if ph' = ph then i # steps_of ph es else steps_of ph es)"

text \<open>
  The modules a phase visits, those in its source state, and the state in which the
  phase leaves a module: one in the source state goes to the target state or to
  \<open>Failed\<close> by its own step, the others stay as they are.
\<close>

definition attempted :: "plugin_state \<Rightarrow> plugin_manager \<Rightarrow> module_record list" where
  "attempted src pm = filter (\<lambda>m. module_state m = src) (modules pm)"

definition after_step ::
  "plugin_state \<Rightarrow> plugin_state \<Rightarrow> (module_record \<Rightarrow> bool) \<Rightarrow> module_record \<Rightarrow> module_record" where
  "after_step src dst ok m =
     (if module_state m = src then m\<lparr>module_state := (if ok m then dst else Failed)\<rparr> else m)"

text \<open>
  Concrete inputs: a discovered module with the given behaviour of its three steps, a
  file system whose directory \<open>plugins\<close> holds the given modules, and a host whose only
  plugin path is that directory.
\<close>

definition example_module :: "string \<Rightarrow> int \<Rightarrow> bool \<Rightarrow> bool \<Rightarrow> bool \<Rightarrow> module_record" where
  "example_module name prio l i s =
     \<lparr>module_id = name, priority = prio, module_state = Discovered,
      entry_point_ok = l, initialize_ok = i, start_ok = s\<rparr>"

definition example_dir :: "module_record list \<Rightarrow> qstring \<Rightarrow> module_record list" where
  "example_dir found path = (if path = QString ''plugins'' then found else [])"

definition example_host :: application where
  "example_host = \<lparr>m_extraPluginPaths = [], m_pluginPath = QString ''plugins'', m_pluginManager = None\<rparr>"

text \<open>
  The state in which \<open>loadPlugins\<close> leaves a module \<open>m\<close> of the discovered modules \<open>ms\<close>:
  the phase after a failed one is not run for any module.
\<close>

definition outcome :: "module_record list \<Rightarrow> module_record \<Rightarrow> plugin_state" where
  "outcome ms m =
     (if \<not> list_all entry_point_ok ms then (if entry_point_ok m then Loaded else Failed)
      else if \<not> list_all initialize_ok ms then (if initialize_ok m then Initialized else Failed)
      else if start_ok m then Started else Failed)"

text \<open>
  The index map the loop after \<open>m_indexMap.clear()\<close> builds from the ids of the items, and
  the invariant of the menu service: no two items have equal ids, and the index map is
  the one built from the list. Every operation keeps it (lemma \<open>reachable_menu_inv\<close>).
\<close>

definition index_of :: "qstring list \<Rightarrow> (qstring \<times> nat) list" where
  "index_of ids = foldl (\<lambda>m i. QMap_insert (ids ! i) i m) [] [0..<length ids]"

definition menu_inv :: "menu_service \<Rightarrow> bool" where
  "menu_inv s =
     (distinct (map (\<lambda>item. constData (id_MenuItem item)) (m_items s))
      \<and> m_indexMap s = index_of (map id_MenuItem (m_items s)))"

text \<open>The list is in the order of \<open>sortItems\<close>: no item is less than an earlier one.\<close>

definition items_sorted :: "menu_service \<Rightarrow> bool" where
  "items_sorted s = sorted_wrt (\<lambda>a b. \<not> sortItems_less b a) (m_items s)"

text \<open>The label of the item registered under an id.\<close>

definition labelOf :: "qstring \<Rightarrow> menu_service \<Rightarrow> qstring option" where
  "labelOf ident s =
     map_option label (find (\<lambda>item. qstring_equal (id_MenuItem item) ident) (m_items s))"

text \<open>The states the service reaches from its construction by calls of its operations.\<close>

inductive reachable :: "qt_convert \<Rightarrow> menu_service \<Rightarrow> bool" for cv :: qt_convert where
  reachable_new: "reachable cv MenuService"
| reachable_registerItem: "reachable cv s \<Longrightarrow> reachable cv (snd (registerItem item s))"
| reachable_unregisterItem: "reachable cv s \<Longrightarrow> reachable cv (unregisterItem ident s)"
| reachable_unregisterPlugin: "reachable cv s \<Longrightarrow> reachable cv (unregisterPlugin plugin s)"
| reachable_updateItem:
    "reachable cv s \<Longrightarrow> updateItem cv ident updates s = Some (r, s') \<Longrightarrow> reachable cv s'"

text \<open>
  An item as a plugin fills it in (compare \<open>RulesPlugin::registerRoutes\<close>), used for
  concrete inputs, and a conversion table that converts every value of another kind to
  the default-constructed value.
\<close>

definition menu_entry :: "string \<Rightarrow> string \<Rightarrow> int \<Rightarrow> MenuItem" where
  "menu_entry name grp n =
     \<lparr>id_MenuItem = QString name, label = QString name, icon = NullQString,
      route = QString name, group_MenuItem = QString grp, order = n, enabled = True,
      badge = NullQString, pluginId = QString ''com.biiz.rules''\<rparr>"

definition default_convert :: qt_convert where
  "default_convert =
     \<lparr>convert_toString = (\<lambda>var. NullQString), convert_toInt = (\<lambda>var. 0),
      convert_toBool = (\<lambda>var. False)\<rparr>"

section \<open>Properties of the string copies\<close>

lemma constData_deepCopy_QString: "constData (deepCopy_QString s) = constData s"
  by (cases s) (simp_all add: deepCopy_QString_def isEmpty_def size_QString_def QString_from_def)

lemma deepCopy_QString_idem: "deepCopy_QString (deepCopy_QString s) = deepCopy_QString s"
  by (cases s) (simp_all add: deepCopy_QString_def isEmpty_def size_QString_def QString_from_def)

lemma qstring_equal_deepCopy_left: "qstring_equal (deepCopy_QString a) b = qstring_equal a b"
  by (simp add: qstring_equal_def constData_deepCopy_QString)

section \<open>Properties of the navigation service\<close>

lemma m_routes_registerRoute:
  "m_routes (registerRoute r u s) =
     m_routes s @ [\<lparr>pattern = deepCopy_QString r, pageUrl = deepCopy_QString u\<rparr>]"
  by (simp add: registerRoute_def Let_def)

lemma m_routes_registerRoutes:
  "m_routes (registerRoutes calls s) =
     m_routes s @
     map (\<lambda>(r, u). \<lparr>pattern = deepCopy_QString r, pageUrl = deepCopy_QString u\<rparr>) calls"
  unfolding registerRoutes_def
  by (induction calls arbitrary: s) (simp_all add: m_routes_registerRoute split: prod.splits)

lemma getPageUrl_loop_entries:
  "fst (getPageUrl_loop
          (map (\<lambda>(r, u). \<lparr>pattern = deepCopy_QString r, pageUrl = deepCopy_QString u\<rparr>) calls) p) =
     (case find (\<lambda>(r, u). qstring_equal r p) calls of
        None \<Rightarrow> NullQString
      | Some (r, u) \<Rightarrow> deepCopy_QString u)"
  by (induction calls)
     (auto simp: qstring_equal_deepCopy_left deepCopy_QString_idem split: prod.splits)

lemma fst_getPageUrl: "fst (getPageUrl p s) = fst (getPageUrl_loop (m_routes s) p)"
  by (simp add: getPageUrl_def split: prod.splits)

lemma getPageUrl_loop_miss:
  "\<forall>entry \<in> set rs. \<not> qstring_equal (pattern entry) p \<Longrightarrow>
   getPageUrl_loop rs p =
     (NullQString, (QtWarningMsg, [QString ''NavigationService: No page URL found for route:'', p]))"
  by (induction rs) simp_all

text \<open>
  Claim C4. \<open>registerRoute\<close> appends an entry to the route table. After any sequence of
  \<open>registerRoute\<close> calls on a new service, \<open>getPageUrl p\<close> returns the copy of the page URL
  of the first call whose pattern equals \<open>p\<close>, a string equal to that URL; a later call
  for the same pattern does not replace it. With no such call the result is the null
  string.
\<close>

theorem getPageUrl_first_registered:
  "m_routes (registerRoute r u s) =
     m_routes s @ [\<lparr>pattern = deepCopy_QString r, pageUrl = deepCopy_QString u\<rparr>]
   \<and> fst (getPageUrl p (registerRoutes calls NavigationService)) =
       (case find (\<lambda>(r, u). qstring_equal r p) calls of
          None \<Rightarrow> NullQString
        | Some (r, u) \<Rightarrow> deepCopy_QString u)
   \<and> qstring_equal (fst (getPageUrl p (registerRoutes calls NavigationService)))
       (case find (\<lambda>(r, u). qstring_equal r p) calls of
          None \<Rightarrow> NullQString
        | Some (r, u) \<Rightarrow> u)"
proof -
  have routes: "m_routes (registerRoutes calls NavigationService) =
      map (\<lambda>(r, u). \<lparr>pattern = deepCopy_QString r, pageUrl = deepCopy_QString u\<rparr>) calls"
    by (simp add: m_routes_registerRoutes NavigationService_def)
  have res: "fst (getPageUrl p (registerRoutes calls NavigationService)) =
       (case find (\<lambda>(r, u). qstring_equal r p) calls of
          None \<Rightarrow> NullQString
        | Some (r, u) \<Rightarrow> deepCopy_QString u)"
    by (simp only: fst_getPageUrl routes getPageUrl_loop_entries)
  show ?thesis
    by (simp add: m_routes_registerRoute res qstring_equal_def constData_deepCopy_QString
        split: option.splits prod.splits)
qed

theorem getPageUrl_first_registered_witness:
  "fst (getPageUrl (QString ''rules'')
         (registerRoutes [(QString ''orders'', QString ''qrc:/Orders.qml''),
                          (QString ''rules'', QString ''file:///a/RulesPage.qml''),
                          (QString ''rules'', QString ''file:///b/RulesPage.qml'')]
            NavigationService)) = QString ''file:///a/RulesPage.qml''"
  using getPageUrl_first_registered [of "QString ''x''" "QString ''y''" NavigationService
     "QString ''rules''"
     "[(QString ''orders'', QString ''qrc:/Orders.qml''),
       (QString ''rules'', QString ''file:///a/RulesPage.qml''),
       (QString ''rules'', QString ''file:///b/RulesPage.qml'')]"]
  by (simp add: qstring_equal_def deepCopy_QString_def isEmpty_def size_QString_def QString_from_def)

text \<open>
  Claim C8. When no entry of the route table has a pattern equal to the one looked up,
  \<open>getPageUrl\<close> returns the null (empty) string and writes one message, at warning level;
  the route table and the current route are as before.
\<close>

theorem getPageUrl_miss:
  assumes "\<forall>entry \<in> set (m_routes s). \<not> qstring_equal (pattern entry) p"
  shows "fst (getPageUrl p s) = NullQString
       \<and> isEmpty (fst (getPageUrl p s))
       \<and> m_routes (snd (getPageUrl p s)) = m_routes s
       \<and> m_currentRoute (snd (getPageUrl p s)) = m_currentRoute s
       \<and> nav_log (snd (getPageUrl p s)) = nav_log s @
            [(QtWarningMsg, [QString ''NavigationService: No page URL found for route:'', p])]"
proof -
  have "getPageUrl_loop (m_routes s) p =
     (NullQString, (QtWarningMsg, [QString ''NavigationService: No page URL found for route:'', p]))"
    using assms by (rule getPageUrl_loop_miss)
  then show ?thesis
    by (simp add: getPageUrl_def isEmpty_def size_QString_def)
qed

theorem getPageUrl_miss_witness:
  "fst (getPageUrl (QString ''orders'')
         (registerRoutes [(QString ''rules'', QString ''u'')] NavigationService)) = NullQString
   \<and> m_routes (snd (getPageUrl (QString ''orders'')
        (registerRoutes [(QString ''rules'', QString ''u'')] NavigationService)))
     = [\<lparr>pattern = QString ''rules'', pageUrl = QString ''u''\<rparr>]"
proof -
  have routes: "m_routes (registerRoutes [(QString ''rules'', QString ''u'')] NavigationService)
      = [\<lparr>pattern = QString ''rules'', pageUrl = QString ''u''\<rparr>]"
    by (simp add: registerRoutes_def registerRoute_def NavigationService_def
        deepCopy_QString_def isEmpty_def size_QString_def QString_from_def)
  have miss: "\<forall>entry \<in> set (m_routes (registerRoutes [(QString ''rules'', QString ''u'')]
                  NavigationService)). \<not> qstring_equal (pattern entry) (QString ''orders'')"
    by (simp add: routes qstring_equal_def)
  show ?thesis
    using getPageUrl_miss [OF miss] by (simp add: routes)
qed

section \<open>Properties of the application\<close>

lemma calls_of_append: "calls_of (xs @ ys) = calls_of xs @ calls_of ys"
  by (induction xs rule: calls_of.induct) simp_all

lemma steps_of_append: "steps_of ph (xs @ ys) = steps_of ph xs @ steps_of ph ys"
  by (induction ph xs rule: steps_of.induct) simp_all

lemma calls_of_steps: "calls_of (map (\<lambda>m. Step ph (f m)) ms) = []"
  by (induction ms) simp_all

lemma steps_of_steps:
  "steps_of ph (map (\<lambda>m. Step ph' (f m)) ms) = (if ph' = ph then map f ms else [])"
  by (induction ms) auto

lemma phase_loop_all_src:
  "list_all (\<lambda>m. module_state m = src) ms \<Longrightarrow>
   phase_loop ph src dst ok ms =
     (list_all ok ms,
      map (\<lambda>m. m\<lparr>module_state := (if ok m then dst else Failed)\<rparr>) ms,
      map (\<lambda>m. Step ph (module_id m)) ms)"
  by (induction ms) (auto split: prod.splits)

lemma run_phase_all_src:
  "list_all (\<lambda>m. module_state m = src) (modules pm) \<Longrightarrow>
   run_phase ph src dst ok pm =
     (list_all ok (modules pm),
      pm\<lparr>modules := map (\<lambda>m. m\<lparr>module_state := (if ok m then dst else Failed)\<rparr>) (modules pm),
         trace := trace pm @ Call ph # map (\<lambda>m. Step ph (module_id m)) (modules pm)\<rparr>)"
  by (simp add: run_phase_def phase_loop_all_src)

lemma list_all_insert_by_priority:
  "list_all P (insert_by_priority m ms) = (P m \<and> list_all P ms)"
  by (induction ms) auto

lemma discover_fold_Discovered:
  "list_all (\<lambda>m. module_state m = Discovered) (modules pm) \<Longrightarrow>
   list_all (\<lambda>m. module_state m = Discovered)
     (modules (snd (foldl (\<lambda>(n, pm') d.
              if module_id d \<in> set (map module_id (modules pm')) then (n, pm')
              else (n + 1,
                    pm'\<lparr>modules := insert_by_priority (d\<lparr>module_state := Discovered\<rparr>) (modules pm')\<rparr>))
           (n, pm) found)))"
  by (induction found arbitrary: n pm) (simp_all add: list_all_insert_by_priority)

lemma discover_fold_trace:
  "trace (snd (foldl (\<lambda>(n, pm') d.
              if module_id d \<in> set (map module_id (modules pm')) then (n, pm')
              else (n + 1,
                    pm'\<lparr>modules := insert_by_priority (d\<lparr>module_state := Discovered\<rparr>) (modules pm')\<rparr>))
           (n, pm) found)) = trace pm"
  by (induction found arbitrary: n pm) simp_all

lemma discover_Discovered:
  "list_all (\<lambda>m. module_state m = Discovered) (modules pm) \<Longrightarrow>
   list_all (\<lambda>m. module_state m = Discovered) (modules (snd (discover found pm)))"
  unfolding discover_def by (rule discover_fold_Discovered)

lemma discover_trace: "trace (snd (discover found pm)) = trace pm"
  unfolding discover_def by (rule discover_fold_trace)

lemma discover_paths_Discovered:
  "list_all (\<lambda>m. module_state m = Discovered) (modules pm) \<Longrightarrow>
   list_all (\<lambda>m. module_state m = Discovered)
     (modules (foldl (\<lambda>pm path. snd (discover (dir path) pm)) pm paths))"
  by (induction paths arbitrary: pm) (simp_all add: discover_Discovered)

lemma discover_paths_trace:
  "trace (foldl (\<lambda>pm path. snd (discover (dir path) pm)) pm paths) = trace pm"
  by (induction paths arbitrary: pm) (simp_all add: discover_trace)

lemma discovered_Discovered:
  "list_all (\<lambda>m. module_state m = Discovered) (modules (discovered dir app))"
  unfolding discovered_def
  by (intro discover_Discovered discover_paths_Discovered) (simp add: PluginManager_def)

lemma discovered_trace: "trace (discovered dir app) = []"
  by (simp add: discovered_def discover_trace discover_paths_trace PluginManager_def)

lemma loadPlugins_discovered:
  "loadPlugins dir app =
     (let (loaded, pm3) = loadAll (discovered dir app);
          pm5 = (if loaded
                 then (let (initialized, pm4) = initializeAll pm3
                       in if initialized then snd (startAll pm4) else pm4)
                 else pm3)
      in app\<lparr>m_pluginManager := Some pm5\<rparr>)"
  by (simp add: loadPlugins_def discovered_def Let_def)

lemma loadAll_discovered:
  "loadAll (discovered dir app) =
     (list_all entry_point_ok (modules (discovered dir app)),
      (discovered dir app)\<lparr>modules := map (\<lambda>m. m\<lparr>module_state := (if entry_point_ok m then Loaded else Failed)\<rparr>)
           (modules (discovered dir app)),
         trace := Call Load # map (\<lambda>m. Step Load (module_id m)) (modules (discovered dir app))\<rparr>)"
  unfolding loadAll_def
  by (simp add: run_phase_all_src discovered_Discovered discovered_trace)

lemma phase_loop_result:
  "phase_loop ph src dst ok ms =
     (list_all ok (filter (\<lambda>m. module_state m = src) ms),
      map (after_step src dst ok) ms,
      map (\<lambda>m. Step ph (module_id m)) (filter (\<lambda>m. module_state m = src) ms))"
  by (induction ms) (auto simp: after_step_def split: prod.splits)

lemma run_phase_result:
  "run_phase ph src dst ok pm =
     (list_all ok (attempted src pm),
      pm\<lparr>modules := map (after_step src dst ok) (modules pm),
         trace := trace pm @ Call ph # map (\<lambda>m. Step ph (module_id m)) (attempted src pm)\<rparr>)"
  by (simp add: run_phase_def phase_loop_result attempted_def)

lemma run_phase_flag: "fst (run_phase ph src dst ok pm) = list_all ok (attempted src pm)"
  by (simp add: run_phase_result)

lemma run_phase_modules:
  "modules (snd (run_phase ph src dst ok pm)) = map (after_step src dst ok) (modules pm)"
  by (simp add: run_phase_result)

lemma run_phase_steps:
  "steps_of ph (trace (snd (run_phase ph src dst ok pm))) =
     steps_of ph (trace pm) @ map module_id (attempted src pm)"
  by (simp add: run_phase_result steps_of_append steps_of_steps)

lemma run_phase_calls:
  "calls_of (trace (snd (run_phase ph src dst ok pm))) = calls_of (trace pm) @ [ph]"
  by (simp add: run_phase_result calls_of_append calls_of_steps)

lemma loadPlugins_outcome:
  fixes dir app
  defines "ms \<equiv> modules (discovered dir app)"
  defines "pm \<equiv> the (m_pluginManager (loadPlugins dir app))"
  shows "m_pluginManager (loadPlugins dir app) = Some pm
       \<and> fst (loadAll (discovered dir app)) = list_all entry_point_ok ms
       \<and> modules pm = map (\<lambda>m. m\<lparr>module_state := outcome ms m\<rparr>) ms
       \<and> steps_of Load (trace pm) = map module_id ms
       \<and> steps_of Initialize (trace pm) = (if list_all entry_point_ok ms then map module_id ms else [])
       \<and> steps_of Start (trace pm) =
           (if list_all entry_point_ok ms \<and> list_all initialize_ok ms then map module_id ms else [])
       \<and> calls_of (trace pm) =
           (if \<not> list_all entry_point_ok ms then [Load]
            else if \<not> list_all initialize_ok ms then [Load, Initialize]
            else [Load, Initialize, Start])
       \<and> (list_all entry_point_ok ms \<longrightarrow>
            fst (initializeAll (snd (loadAll (discovered dir app)))) = list_all initialize_ok ms)
       \<and> (list_all entry_point_ok ms \<and> list_all initialize_ok ms \<longrightarrow>
            fst (startAll (snd (initializeAll (snd (loadAll (discovered dir app)))))) =
              list_all start_ok ms)"
proof -
  define pm3 where "pm3 = snd (loadAll (discovered dir app))"
  have L: "loadAll (discovered dir app) = (list_all entry_point_ok ms, pm3)"
    and m3: "modules pm3 = map (\<lambda>m. m\<lparr>module_state := (if entry_point_ok m then Loaded else Failed)\<rparr>) ms"
    and t3: "trace pm3 = Call Load # map (\<lambda>m. Step Load (module_id m)) ms"
    by (simp_all add: pm3_def loadAll_discovered ms_def)
  have some: "m_pluginManager (loadPlugins dir app) = Some pm"
    by (simp add: pm_def loadPlugins_def Let_def split: prod.splits)
  have "fst (loadAll (discovered dir app)) = list_all entry_point_ok ms
       \<and> modules pm = map (\<lambda>m. m\<lparr>module_state := outcome ms m\<rparr>) ms
       \<and> steps_of Load (trace pm) = map module_id ms
       \<and> steps_of Initialize (trace pm) = (if list_all entry_point_ok ms then map module_id ms else [])
       \<and> steps_of Start (trace pm) =
           (if list_all entry_point_ok ms \<and> list_all initialize_ok ms then map module_id ms else [])
       \<and> calls_of (trace pm) =
           (if \<not> list_all entry_point_ok ms then [Load]
            else if \<not> list_all initialize_ok ms then [Load, Initialize]
            else [Load, Initialize, Start])
       \<and> (list_all entry_point_ok ms \<longrightarrow>
            fst (initializeAll (snd (loadAll (discovered dir app)))) = list_all initialize_ok ms)
       \<and> (list_all entry_point_ok ms \<and> list_all initialize_ok ms \<longrightarrow>
            fst (startAll (snd (initializeAll (snd (loadAll (discovered dir app)))))) =
              list_all start_ok ms)"
  proof (cases "list_all entry_point_ok ms")
    case False
    then have "pm = pm3"
      by (simp add: pm_def loadPlugins_discovered L)
    with False show ?thesis
      by (simp add: L m3 t3 outcome_def steps_of_steps calls_of_steps)
  next
    case l: True
    have all3: "list_all (\<lambda>m. module_state m = Loaded) (modules pm3)"
      using l by (simp add: m3 list_all_iff)
    define pm4 where "pm4 = snd (initializeAll pm3)"
    have I: "initializeAll pm3 = (list_all initialize_ok ms, pm4)"
      and m4: "modules pm4 = map (\<lambda>m. m\<lparr>module_state := (if initialize_ok m then Initialized else Failed)\<rparr>) ms"
      and t4: "trace pm4 = trace pm3 @ Call Initialize # map (\<lambda>m. Step Initialize (module_id m)) ms"
      unfolding initializeAll_def pm4_def
      by (simp_all add: run_phase_all_src [OF all3] m3 list_all_iff o_def)
    show ?thesis
    proof (cases "list_all initialize_ok ms")
      case False
      then have "pm = pm4"
        using l by (simp add: pm_def loadPlugins_discovered L I)
      with False l show ?thesis
        by (simp add: L I m4 t4 t3 outcome_def steps_of_steps steps_of_append
            calls_of_steps calls_of_append)
    next
      case i: True
      have all4: "list_all (\<lambda>m. module_state m = Initialized) (modules pm4)"
        using i by (simp add: m4 list_all_iff)
      define pm5 where "pm5 = snd (startAll pm4)"
      have S: "startAll pm4 = (list_all start_ok ms, pm5)"
        and m5: "modules pm5 = map (\<lambda>m. m\<lparr>module_state := (if start_ok m then Started else Failed)\<rparr>) ms"
        and t5: "trace pm5 = trace pm4 @ Call Start # map (\<lambda>m. Step Start (module_id m)) ms"
        unfolding startAll_def pm5_def
        by (simp_all add: run_phase_all_src [OF all4] m4 list_all_iff o_def)
      have "pm = pm5"
        using l i by (simp add: pm_def loadPlugins_discovered L I S)
      with l i show ?thesis
        by (simp add: L I S m5 t5 t4 t3 outcome_def steps_of_steps steps_of_append
            calls_of_steps calls_of_append)
    qed
  qed
  with some show ?thesis
    by (elim conjE, intro conjI) assumption+
qed


text \<open>
  Claim C1, as amended. Within a phase (load, initialize or start) every module in the
  source state of the phase is attempted, whether or not another module fails; each
  ends in the target state or in \<open>Failed\<close> by its own step, and the flag the phase
  returns is true only if every attempted module succeeded, so it is false when one
  fails. But \<open>loadPlugins\<close> runs \<open>initializeAll\<close> only when \<open>loadAll\<close> returned true, and
  \<open>startAll\<close> only when \<open>initializeAll\<close> returned true: after a failure in a phase the
  next phase is not invoked, no module attempts it, and every module that succeeded
  stays in the state of the failed phase.
\<close>

theorem loadPlugins_gated:
  fixes dir app pm0
  defines "ms \<equiv> modules (discovered dir app)"
  defines "pm \<equiv> the (m_pluginManager (loadPlugins dir app))"
  shows "fst (loadAll pm0) = list_all entry_point_ok (attempted Discovered pm0)
       \<and> modules (snd (loadAll pm0)) =
           map (after_step Discovered Loaded entry_point_ok) (modules pm0)
       \<and> steps_of Load (trace (snd (loadAll pm0))) =
           steps_of Load (trace pm0) @ map module_id (attempted Discovered pm0)
       \<and> fst (initializeAll pm0) = list_all initialize_ok (attempted Loaded pm0)
       \<and> modules (snd (initializeAll pm0)) =
           map (after_step Loaded Initialized initialize_ok) (modules pm0)
       \<and> steps_of Initialize (trace (snd (initializeAll pm0))) =
           steps_of Initialize (trace pm0) @ map module_id (attempted Loaded pm0)
       \<and> fst (startAll pm0) = list_all start_ok (attempted Initialized pm0)
       \<and> modules (snd (startAll pm0)) =
           map (after_step Initialized Started start_ok) (modules pm0)
       \<and> steps_of Start (trace (snd (startAll pm0))) =
           steps_of Start (trace pm0) @ map module_id (attempted Initialized pm0)
       \<and> m_pluginManager (loadPlugins dir app) = Some pm
       \<and> fst (loadAll (discovered dir app)) = list_all entry_point_ok ms
       \<and> modules pm = map (\<lambda>m. m\<lparr>module_state := outcome ms m\<rparr>) ms
       \<and> steps_of Load (trace pm) = map module_id ms
       \<and> steps_of Initialize (trace pm) = (if list_all entry_point_ok ms then map module_id ms else [])
       \<and> steps_of Start (trace pm) =
           (if list_all entry_point_ok ms \<and> list_all initialize_ok ms then map module_id ms else [])
       \<and> calls_of (trace pm) =
           (if \<not> list_all entry_point_ok ms then [Load]
            else if \<not> list_all initialize_ok ms then [Load, Initialize]
            else [Load, Initialize, Start])
       \<and> (list_all entry_point_ok ms \<longrightarrow>
            fst (initializeAll (snd (loadAll (discovered dir app)))) = list_all initialize_ok ms)
       \<and> (list_all entry_point_ok ms \<and> list_all initialize_ok ms \<longrightarrow>
            fst (startAll (snd (initializeAll (snd (loadAll (discovered dir app)))))) =
              list_all start_ok ms)"
proof -
  have phases: "fst (loadAll pm0) = list_all entry_point_ok (attempted Discovered pm0)
       \<and> modules (snd (loadAll pm0)) =
           map (after_step Discovered Loaded entry_point_ok) (modules pm0)
       \<and> steps_of Load (trace (snd (loadAll pm0))) =
           steps_of Load (trace pm0) @ map module_id (attempted Discovered pm0)
       \<and> fst (initializeAll pm0) = list_all initialize_ok (attempted Loaded pm0)
       \<and> modules (snd (initializeAll pm0)) =
           map (after_step Loaded Initialized initialize_ok) (modules pm0)
       \<and> steps_of Initialize (trace (snd (initializeAll pm0))) =
           steps_of Initialize (trace pm0) @ map module_id (attempted Loaded pm0)
       \<and> fst (startAll pm0) = list_all start_ok (attempted Initialized pm0)
       \<and> modules (snd (startAll pm0)) =
           map (after_step Initialized Started start_ok) (modules pm0)
       \<and> steps_of Start (trace (snd (startAll pm0))) =
           steps_of Start (trace pm0) @ map module_id (attempted Initialized pm0)"
    unfolding loadAll_def initializeAll_def startAll_def
    by (simp only: run_phase_flag run_phase_modules run_phase_steps simp_thms)
  show ?thesis
    using phases loadPlugins_outcome [of dir app]
    unfolding ms_def pm_def by (elim conjE, intro conjI) assumption+
qed

theorem loadPlugins_gated_witness:
  "map (\<lambda>m. (module_id m, module_state m))
     (modules (the (m_pluginManager
        (loadPlugins (example_dir [example_module ''B'' 20 True True True,
                                   example_module ''A'' 10 True False True])
           example_host))))
     = [(''A'', Failed), (''B'', Initialized)]
   \<and> fst (initializeAll (snd (loadAll (discovered
        (example_dir [example_module ''B'' 20 True True True,
                      example_module ''A'' 10 True False True])
        example_host)))) = False
   \<and> steps_of Start (trace (the (m_pluginManager
        (loadPlugins (example_dir [example_module ''B'' 20 True True True,
                                   example_module ''A'' 10 True False True])
           example_host)))) = []
   \<and> map (\<lambda>m. (module_id m, module_state m))
     (modules (the (m_pluginManager
        (loadPlugins (example_dir [example_module ''B'' 20 True True True,
                                   example_module ''A'' 10 True True False])
           example_host))))
     = [(''A'', Failed), (''B'', Started)]
   \<and> fst (startAll (snd (initializeAll (snd (loadAll (discovered
        (example_dir [example_module ''B'' 20 True True True,
                      example_module ''A'' 10 True True False])
        example_host)))))) = False
   \<and> steps_of Start (trace (the (m_pluginManager
        (loadPlugins (example_dir [example_module ''B'' 20 True True True,
                                   example_module ''A'' 10 True True False])
           example_host)))) = [''A'', ''B'']
   \<and> map (\<lambda>m. (module_id m, module_state m))
     (modules (the (m_pluginManager
        (loadPlugins (example_dir [example_module ''B'' 20 True True True,
                                   example_module ''A'' 10 True True True])
           example_host))))
     = [(''A'', Started), (''B'', Started)]"
proof -
  have d: "modules (discovered (example_dir [example_module ''B'' 20 True True True,
                      example_module ''A'' 10 l i s]) example_host)
      = [example_module ''A'' 10 l i s, example_module ''B'' 20 True True True]" for l i s
    by (simp add: discovered_def discover_def PluginManager_def example_dir_def
        example_host_def example_module_def)
  have f: "module_id (example_module n p l i s) = n" "entry_point_ok (example_module n p l i s) = l"
    "initialize_ok (example_module n p l i s) = i" "start_ok (example_module n p l i s) = s"
    for n p l i s
    by (simp_all add: example_module_def)
  show ?thesis
    using loadPlugins_gated [of PluginManager
        "example_dir [example_module ''B'' 20 True True True,
                      example_module ''A'' 10 True False True]" example_host]
      loadPlugins_gated [of PluginManager
        "example_dir [example_module ''B'' 20 True True True,
                      example_module ''A'' 10 True True False]" example_host]
      loadPlugins_gated [of PluginManager
        "example_dir [example_module ''B'' 20 True True True,
                      example_module ''A'' 10 True True True]" example_host]
    by (simp add: d f outcome_def)
qed

text \<open>
  The claim as stated fails: with the entry point of module A malformed and module B
  sound, the aggregate load result is false and \<open>loadPlugins\<close> leaves B in the state
  \<open>Loaded\<close>; its \<open>initialize\<close> and \<open>start\<close> steps are never attempted.
\<close>

theorem loadPlugins_load_failure_counterexample:
  "fst (loadAll (discovered
           (\<lambda>path. if path = QString ''plugins''
                    then [\<lparr>module_id = ''B'', priority = 20, module_state = Discovered,
                            entry_point_ok = True, initialize_ok = True, start_ok = True\<rparr>,
                          \<lparr>module_id = ''A'', priority = 10, module_state = Discovered,
                            entry_point_ok = False, initialize_ok = True, start_ok = True\<rparr>]
                    else [])
           \<lparr>m_extraPluginPaths = [], m_pluginPath = QString ''plugins'',
              m_pluginManager = None\<rparr>)) = False
   \<and> map (\<lambda>m. (module_id m, module_state m))
     (modules (the (m_pluginManager
        (loadPlugins
           (\<lambda>path. if path = QString ''plugins''
                    then [\<lparr>module_id = ''B'', priority = 20, module_state = Discovered,
                            entry_point_ok = True, initialize_ok = True, start_ok = True\<rparr>,
                          \<lparr>module_id = ''A'', priority = 10, module_state = Discovered,
                            entry_point_ok = False, initialize_ok = True, start_ok = True\<rparr>]
                    else [])
           \<lparr>m_extraPluginPaths = [], m_pluginPath = QString ''plugins'',
              m_pluginManager = None\<rparr>))))
     = [(''A'', Failed), (''B'', Loaded)]"
  by (simp add: loadPlugins_def discovered_def discover_def PluginManager_def loadAll_def
      run_phase_def)

text \<open>
  Claim C6. When the application is destroyed and a plugin manager exists, \<open>stopAll\<close> is
  invoked on it and then \<open>unloadAll\<close>, whatever the states of its modules and whatever
  was invoked before; with no plugin manager nothing is done.
\<close>

theorem Application_dtor_teardown:
  "(m_pluginManager app = Some pm \<longrightarrow>
      m_pluginManager (Application_dtor app) = Some (unloadAll (stopAll pm))
      \<and> calls_of (trace (unloadAll (stopAll pm))) = calls_of (trace pm) @ [Stop, Unload])
   \<and> (m_pluginManager app = None \<longrightarrow> Application_dtor app = app)"
  by (simp add: Application_dtor_def unloadAll_def stopAll_def calls_of_append calls_of_steps)


theorem Application_dtor_teardown_witness:
  "calls_of (trace (the (m_pluginManager (Application_dtor
      \<lparr>m_extraPluginPaths = [], m_pluginPath = QString ''plugins'',
       m_pluginManager = Some
         \<lparr>modules = [\<lparr>module_id = ''A'', priority = 10, module_state = Failed,
                       entry_point_ok = False, initialize_ok = True, start_ok = True\<rparr>,
                     \<lparr>module_id = ''B'', priority = 20, module_state = Loaded,
                       entry_point_ok = True, initialize_ok = True, start_ok = True\<rparr>],
          trace = [Call Load, Step Load ''A'', Step Load ''B'']\<rparr>\<rparr>))))
     = [Load, Stop, Unload]"
  using Application_dtor_teardown [of
      "\<lparr>m_extraPluginPaths = [], m_pluginPath = QString ''plugins'',
       m_pluginManager = Some
         \<lparr>modules = [\<lparr>module_id = ''A'', priority = 10, module_state = Failed,
                       entry_point_ok = False, initialize_ok = True, start_ok = True\<rparr>,
                     \<lparr>module_id = ''B'', priority = 20, module_state = Loaded,
                       entry_point_ok = True, initialize_ok = True, start_ok = True\<rparr>],
          trace = [Call Load, Step Load ''A'', Step Load ''B'']\<rparr>\<rparr>"
      "\<lparr>modules = [\<lparr>module_id = ''A'', priority = 10, module_state = Failed,
                       entry_point_ok = False, initialize_ok = True, start_ok = True\<rparr>,
                     \<lparr>module_id = ''B'', priority = 20, module_state = Loaded,
                       entry_point_ok = True, initialize_ok = True, start_ok = True\<rparr>],
          trace = [Call Load, Step Load ''A'', Step Load ''B'']\<rparr>"]
  by simp

section \<open>Properties of the menu service\<close>

subsection \<open>The map operations\<close>

lemma QMap_find_insert:
  "QMap_find (QMap_insert k v m) k' = (if qstring_equal k k' then Some v else QMap_find m k')"
  by (induction m) (auto simp: qstring_equal_def qstring_less_def)

lemma QMap_find_fold_insert:
  "QMap_find (foldl (\<lambda>m i. QMap_insert (f i) i m) m0 [0..<n]) k =
     (if \<exists>i<n. qstring_equal (f i) k
      then Some (GREATEST i. i < n \<and> qstring_equal (f i) k)
      else QMap_find m0 k)"
proof (induction n)
  case 0
  then show ?case by simp
next
  case (Suc n)
  show ?case
  proof (cases "qstring_equal (f n) k")
    case True
    have "(GREATEST i. i < Suc n \<and> qstring_equal (f i) k) = n"
      using True by (intro Greatest_equality) auto
    with True show ?thesis by (auto simp: QMap_find_insert)
  next
    case False
    have e: "(\<exists>i<Suc n. qstring_equal (f i) k) = (\<exists>i<n. qstring_equal (f i) k)"
      using False less_Suc_eq by auto
    have g: "(\<lambda>i. i < Suc n \<and> qstring_equal (f i) k) = (\<lambda>i. i < n \<and> qstring_equal (f i) k)"
      using False less_Suc_eq by auto
    have "QMap_find (foldl (\<lambda>m i. QMap_insert (f i) i m) m0 [0..<Suc n]) k =
          QMap_find (foldl (\<lambda>m i. QMap_insert (f i) i m) m0 [0..<n]) k"
      using False by (simp add: QMap_find_insert)
    then show ?thesis
      unfolding e g using Suc by simp
  qed
qed

lemma QMap_find_index_of:
  "QMap_find (index_of ids) k =
     (if \<exists>i<length ids. qstring_equal (ids ! i) k
      then Some (GREATEST i. i < length ids \<and> qstring_equal (ids ! i) k)
      else None)"
  unfolding index_of_def by (simp add: QMap_find_fold_insert)

lemma QMap_contains_index_of:
  "QMap_contains (index_of ids) k = (\<exists>x \<in> set ids. qstring_equal x k)"
proof
  assume "QMap_contains (index_of ids) k"
  then show "\<exists>x \<in> set ids. qstring_equal x k"
    by (auto simp: QMap_contains_def QMap_find_index_of split: if_splits)
next
  assume "\<exists>x \<in> set ids. qstring_equal x k"
  then have "\<exists>i<length ids. qstring_equal (ids ! i) k"
    by (auto simp: in_set_conv_nth)
  then show "QMap_contains (index_of ids) k"
    by (simp add: QMap_contains_def QMap_find_index_of)
qed

lemma QMap_value_index_of:
  assumes "QMap_contains (index_of ids) k"
  shows "QMap_value (index_of ids) k 0 < length ids
       \<and> qstring_equal (ids ! QMap_value (index_of ids) k 0) k"
proof -
  from assms obtain i where i: "i < length ids" "qstring_equal (ids ! i) k"
    by (auto simp: QMap_contains_index_of in_set_conv_nth)
  let ?g = "GREATEST i. i < length ids \<and> qstring_equal (ids ! i) k"
  have "?g < length ids \<and> qstring_equal (ids ! ?g) k"
    by (rule GreatestI_nat [where b = "length ids"]) (use i in auto)
  moreover have "QMap_value (index_of ids) k 0 = ?g"
    using i by (auto simp: QMap_value_def QMap_find_index_of)
  ultimately show ?thesis by simp
qed

lemma m_indexMap_rebuildIndexMap:
  "m_indexMap (rebuildIndexMap s) = index_of (map id_MenuItem (m_items s))"
proof -
  have "foldl (\<lambda>m i. QMap_insert (id_MenuItem (m_items s ! i)) i m) m0 [0..<length (m_items s)] =
        foldl (\<lambda>m i. QMap_insert (map id_MenuItem (m_items s) ! i) i m) m0 [0..<length (m_items s)]" for m0
    by (rule foldl_cong) simp_all
  then show ?thesis
    by (simp add: rebuildIndexMap_def index_of_def)
qed

lemma m_items_rebuildIndexMap [simp]: "m_items (rebuildIndexMap s) = m_items s"
  by (simp add: rebuildIndexMap_def)

lemma menuChanged_rebuildIndexMap [simp]: "menuChanged (rebuildIndexMap s) = menuChanged s"
  by (simp add: rebuildIndexMap_def)

subsection \<open>The stable sort\<close>

lemma set_stable_insert: "set (stable_insert c x ys) = insert x (set ys)"
  by (induction ys) auto

lemma length_stable_insert: "length (stable_insert c x ys) = Suc (length ys)"
  by (induction ys) auto

lemma distinct_map_stable_insert:
  "distinct (map f (stable_insert c x ys)) = (f x \<notin> f ` set ys \<and> distinct (map f ys))"
  by (induction ys) (auto simp: set_stable_insert)

lemma set_stable_sort: "set (stable_sort c xs) = set xs"
  unfolding stable_sort_def by (induction xs) (simp_all add: set_stable_insert)

lemma length_stable_sort: "length (stable_sort c xs) = length xs"
  unfolding stable_sort_def by (induction xs) (simp_all add: length_stable_insert)

lemma distinct_map_stable_sort: "distinct (map f (stable_sort c xs)) = distinct (map f xs)"
proof (induction xs)
  case Nil
  then show ?case by (simp add: stable_sort_def)
next
  case (Cons x xs)
  have "set (foldr (stable_insert c) xs []) = set xs"
    using set_stable_sort [of c xs] by (simp add: stable_sort_def)
  with Cons show ?case
    by (simp add: stable_sort_def distinct_map_stable_insert)
qed


subsection \<open>The small state transformers\<close>

lemma qWarning_fields [simp]:
  "m_items (qWarning parts s) = m_items s"
  "m_indexMap (qWarning parts s) = m_indexMap s"
  "menuChanged (qWarning parts s) = menuChanged s"
  by (simp_all add: qWarning_def)

lemma qDebug_fields [simp]:
  "m_items (qDebug parts s) = m_items s"
  "m_indexMap (qDebug parts s) = m_indexMap s"
  "menuChanged (qDebug parts s) = menuChanged s"
  by (simp_all add: qDebug_def)

lemma emit_menuChanged_fields [simp]:
  "m_items (emit_menuChanged s) = m_items s"
  "m_indexMap (emit_menuChanged s) = m_indexMap s"
  "menuChanged (emit_menuChanged s) = menuChanged s + 1"
  by (simp_all add: emit_menuChanged_def)

lemma sortItems_fields [simp]:
  "m_items (sortItems s) = stable_sort sortItems_less (m_items s)"
  "m_indexMap (sortItems s) = m_indexMap s"
  "menuChanged (sortItems s) = menuChanged s"
  by (simp_all add: sortItems_def)

lemma assign_fields [simp]:
  "m_items (assign idx f s) = (m_items s)[idx := f (m_items s ! idx)]"
  "m_indexMap (assign idx f s) = m_indexMap s"
  "menuChanged (assign idx f s) = menuChanged s"
  by (simp_all add: assign_def)

lemma constData_id_deepCopyItem [simp]:
  "constData (id_MenuItem (deepCopyItem item)) = constData (id_MenuItem item)"
  by (simp add: deepCopyItem_def constData_deepCopy_QString)

lemma menu_inv_contains:
  "menu_inv s \<Longrightarrow>
   QMap_contains (m_indexMap s) k = (\<exists>x \<in> set (m_items s). qstring_equal (id_MenuItem x) k)"
  by (simp add: menu_inv_def QMap_contains_index_of)

lemma menu_inv_index:
  assumes "menu_inv s" "QMap_contains (m_indexMap s) k"
  shows "QMap_value (m_indexMap s) k 0 < length (m_items s)"
    and "qstring_equal (id_MenuItem (m_items s ! QMap_value (m_indexMap s) k 0)) k"
proof -
  have m: "m_indexMap s = index_of (map id_MenuItem (m_items s))"
    using assms(1) by (simp add: menu_inv_def)
  have v: "QMap_value (m_indexMap s) k 0 < length (map id_MenuItem (m_items s))
       \<and> qstring_equal (map id_MenuItem (m_items s) ! QMap_value (m_indexMap s) k 0) k"
    using QMap_value_index_of [of "map id_MenuItem (m_items s)" k] assms(2) unfolding m by fast
  then show lt: "QMap_value (m_indexMap s) k 0 < length (m_items s)"
    by simp
  have "map id_MenuItem (m_items s) ! QMap_value (m_indexMap s) k 0 =
        id_MenuItem (m_items s ! QMap_value (m_indexMap s) k 0)"
    using lt by (rule nth_map)
  with v show "qstring_equal (id_MenuItem (m_items s ! QMap_value (m_indexMap s) k 0)) k"
    by metis
qed

subsection \<open>registerItem\<close>

lemma registerItem_rejected:
  "isEmpty (id_MenuItem item) \<or> QMap_contains (m_indexMap s) (id_MenuItem item) \<Longrightarrow>
   fst (registerItem item s) = False
   \<and> m_items (snd (registerItem item s)) = m_items s
   \<and> m_indexMap (snd (registerItem item s)) = m_indexMap s
   \<and> menuChanged (snd (registerItem item s)) = menuChanged s"
  by (auto simp: registerItem_def)

lemma registerItem_accepted:
  "\<not> isEmpty (id_MenuItem item) \<Longrightarrow> \<not> QMap_contains (m_indexMap s) (id_MenuItem item) \<Longrightarrow>
   fst (registerItem item s) = True
   \<and> m_items (snd (registerItem item s)) = stable_sort sortItems_less (m_items s @ [deepCopyItem item])
   \<and> m_indexMap (snd (registerItem item s)) =
       index_of (map id_MenuItem (stable_sort sortItems_less (m_items s @ [deepCopyItem item])))
   \<and> menuChanged (snd (registerItem item s)) = menuChanged s + 1"
  by (simp add: registerItem_def Let_def m_indexMap_rebuildIndexMap)

lemma registerItem_menu_inv:
  assumes "menu_inv s"
  shows "menu_inv (snd (registerItem item s))"
proof (cases "isEmpty (id_MenuItem item) \<or> QMap_contains (m_indexMap s) (id_MenuItem item)")
  case True
  then show ?thesis
    using assms registerItem_rejected [of item s] by (simp add: menu_inv_def)
next
  case False
  then have new: "\<forall>x \<in> set (m_items s). constData (id_MenuItem x) \<noteq> constData (id_MenuItem item)"
    using assms by (simp add: menu_inv_contains qstring_equal_def)
  from False have acc: "m_items (snd (registerItem item s)) =
        stable_sort sortItems_less (m_items s @ [deepCopyItem item])"
      "m_indexMap (snd (registerItem item s)) =
        index_of (map id_MenuItem (stable_sort sortItems_less (m_items s @ [deepCopyItem item])))"
    using registerItem_accepted [of item s] by simp_all
  have "distinct (map (\<lambda>item. constData (id_MenuItem item)) (m_items s @ [deepCopyItem item]))"
    using assms new by (auto simp: menu_inv_def)
  then show ?thesis
    by (simp only: menu_inv_def acc distinct_map_stable_sort)
qed

text \<open>
  Claim C5. In a state that satisfies the invariant, \<open>registerItem\<close> returns false and
  leaves the item list as it was when the id of the given item is empty or equal to the
  id of an item of the list; otherwise it returns true and the list afterwards holds the
  copy of the item besides the items it held before.
\<close>

theorem registerItem_result:
  assumes "menu_inv s"
  shows "(isEmpty (id_MenuItem item)
            \<or> (\<exists>x \<in> set (m_items s). qstring_equal (id_MenuItem x) (id_MenuItem item))
          \<longrightarrow> fst (registerItem item s) = False
              \<and> m_items (snd (registerItem item s)) = m_items s)
       \<and> (\<not> isEmpty (id_MenuItem item)
            \<and> \<not> (\<exists>x \<in> set (m_items s). qstring_equal (id_MenuItem x) (id_MenuItem item))
          \<longrightarrow> fst (registerItem item s) = True
              \<and> deepCopyItem item \<in> set (m_items (snd (registerItem item s)))
              \<and> set (m_items (snd (registerItem item s))) = insert (deepCopyItem item) (set (m_items s)))"
proof -
  have c: "QMap_contains (m_indexMap s) (id_MenuItem item) =
        (\<exists>x \<in> set (m_items s). qstring_equal (id_MenuItem x) (id_MenuItem item))"
    using assms by (rule menu_inv_contains)
  show ?thesis
    using registerItem_rejected [of item s] registerItem_accepted [of item s]
    unfolding c by (auto simp: set_stable_sort)
qed

subsection \<open>unregisterItem and unregisterPlugin\<close>

lemma find_if_length: "(find_if P xs = length xs) = (\<forall>x \<in> set xs. \<not> P x)"
  by (induction xs) auto

lemma find_if_le: "find_if P xs \<le> length xs"
  by (induction xs) auto

lemma unregisterItem_unknown:
  "\<not> (\<exists>x \<in> set (m_items s). qstring_equal (id_MenuItem x) ident) \<Longrightarrow> unregisterItem ident s = s"
  using find_if_length [of "\<lambda>item. qstring_equal (id_MenuItem item) ident" "m_items s"]
  by (simp add: unregisterItem_def Let_def)

lemma unregisterItem_known:
  assumes "\<exists>x \<in> set (m_items s). qstring_equal (id_MenuItem x) ident"
  shows "m_items (unregisterItem ident s) =
           erase (find_if (\<lambda>item. qstring_equal (id_MenuItem item) ident) (m_items s)) (m_items s)"
    and "m_indexMap (unregisterItem ident s) = index_of (map id_MenuItem (m_items (unregisterItem ident s)))"
    and "menuChanged (unregisterItem ident s) = menuChanged s + 1"
    and "length (m_items (unregisterItem ident s)) < length (m_items s)"
proof -
  let ?it = "find_if (\<lambda>item. qstring_equal (id_MenuItem item) ident) (m_items s)"
  have ne: "?it \<noteq> length (m_items s)"
    using assms by (simp add: find_if_length)
  then have lt: "?it < length (m_items s)"
    using find_if_le [of "\<lambda>item. qstring_equal (id_MenuItem item) ident" "m_items s"] by simp
  show "m_items (unregisterItem ident s) = erase ?it (m_items s)"
    using ne by (simp add: unregisterItem_def Let_def)
  show "m_indexMap (unregisterItem ident s) = index_of (map id_MenuItem (m_items (unregisterItem ident s)))"
    using ne by (simp add: unregisterItem_def Let_def m_indexMap_rebuildIndexMap)
  show "menuChanged (unregisterItem ident s) = menuChanged s + 1"
    using ne by (simp add: unregisterItem_def Let_def)
  show "length (m_items (unregisterItem ident s)) < length (m_items s)"
    using ne lt by (simp add: unregisterItem_def Let_def erase_def)
qed

lemma distinct_map_erase:
  assumes "distinct (map f xs)"
  shows "distinct (map f (erase i xs))"
proof (cases "i < length xs")
  case True
  then have "xs = take i xs @ xs ! i # drop (Suc i) xs"
    by (rule id_take_nth_drop)
  then have "map f xs = map f (take i xs) @ f (xs ! i) # map f (drop (Suc i) xs)"
    by (metis list.simps(9) map_append)
  with assms have "distinct (map f (take i xs) @ f (xs ! i) # map f (drop (Suc i) xs))"
    by simp
  then show ?thesis
    by (auto simp: erase_def)
next
  case False
  with assms show ?thesis
    by (simp add: erase_def)
qed

lemma unregisterItem_menu_inv: "menu_inv s \<Longrightarrow> menu_inv (unregisterItem ident s)"
proof (cases "\<exists>x \<in> set (m_items s). qstring_equal (id_MenuItem x) ident")
  case True
  assume "menu_inv s"
  then show ?thesis
    using unregisterItem_known(1,2) [OF True]
    by (simp add: menu_inv_def distinct_map_erase)
next
  case False
  assume "menu_inv s"
  then show ?thesis
    using unregisterItem_unknown [OF False] by simp
qed

lemma length_filter_eq: "(length (filter P xs) = length xs) = (\<forall>x \<in> set xs. P x)"
proof (induction xs)
  case Nil
  then show ?case by simp
next
  case (Cons a xs)
  have "length (filter P xs) \<noteq> Suc (length xs)"
    by (metis Suc_n_not_le_n length_filter_le)
  with Cons show ?case
    by auto
qed

lemma unregisterPlugin_unknown:
  "\<not> (\<exists>x \<in> set (m_items s). qstring_equal (pluginId x) plugin) \<Longrightarrow> unregisterPlugin plugin s = s"
  by (simp add: unregisterPlugin_def Let_def remove_if_def length_filter_eq)

lemma unregisterPlugin_known:
  assumes "\<exists>x \<in> set (m_items s). qstring_equal (pluginId x) plugin"
  shows "m_items (unregisterPlugin plugin s) =
           filter (\<lambda>item. \<not> qstring_equal (pluginId item) plugin) (m_items s)"
    and "m_indexMap (unregisterPlugin plugin s) =
           index_of (map id_MenuItem (m_items (unregisterPlugin plugin s)))"
    and "menuChanged (unregisterPlugin plugin s) = menuChanged s + 1"
    and "length (m_items (unregisterPlugin plugin s)) < length (m_items s)"
proof -
  let ?kept = "filter (\<lambda>item. \<not> qstring_equal (pluginId item) plugin) (m_items s)"
  have ne: "length ?kept \<noteq> length (m_items s)"
    using assms by (simp add: length_filter_eq)
  then have lt: "length ?kept < length (m_items s)"
    by (metis le_neq_implies_less length_filter_le)
  show "m_items (unregisterPlugin plugin s) = ?kept"
    using ne by (simp add: unregisterPlugin_def Let_def remove_if_def)
  show "m_indexMap (unregisterPlugin plugin s) =
           index_of (map id_MenuItem (m_items (unregisterPlugin plugin s)))"
    using ne by (simp add: unregisterPlugin_def Let_def remove_if_def m_indexMap_rebuildIndexMap)
  show "menuChanged (unregisterPlugin plugin s) = menuChanged s + 1"
    using ne by (simp add: unregisterPlugin_def Let_def remove_if_def)
  show "length (m_items (unregisterPlugin plugin s)) < length (m_items s)"
    using ne lt by (simp add: unregisterPlugin_def Let_def remove_if_def)
qed

lemma unregisterPlugin_menu_inv: "menu_inv s \<Longrightarrow> menu_inv (unregisterPlugin plugin s)"
proof (cases "\<exists>x \<in> set (m_items s). qstring_equal (pluginId x) plugin")
  case True
  assume "menu_inv s"
  then show ?thesis
    using unregisterPlugin_known(1,2) [OF True]
    by (simp add: menu_inv_def distinct_map_filter)
next
  case False
  assume "menu_inv s"
  then show ?thesis
    using unregisterPlugin_unknown [OF False] by simp
qed


subsection \<open>updateItem\<close>

lemma updateItem_unknown:
  "\<not> QMap_contains (m_indexMap s) ident \<Longrightarrow> updateItem cv ident updates s = Some (False, s)"
  by (simp add: updateItem_def)

text \<open>
  A property that holds after the assignment to the label, and that every later
  assignment through the slot and the sort keep, holds when \<open>updateItem\<close> returns.
\<close>

lemma updateItem_rule:
  assumes c: "QMap_contains (m_indexMap s) ident"
    and r: "QMap_value (m_indexMap s) ident 0 < length (m_items s)"
    and P1: "P (if QMap_contains updates (QString ''title'')
                then assign (QMap_value (m_indexMap s) ident 0)
                       (\<lambda>item. item\<lparr>label :=
                          toString cv (QMap_value updates (QString ''label'') VInvalid)\<rparr>) s
                else s)"
    and A: "\<And>t f. P t \<Longrightarrow> (\<And>x. id_MenuItem (f x) = id_MenuItem x \<and> label (f x) = label x)
              \<Longrightarrow> P (assign (QMap_value (m_indexMap s) ident 0) f t)"
    and S: "\<And>t. P t \<Longrightarrow> P (rebuildIndexMap (sortItems t))"
  shows "\<exists>t. updateItem cv ident updates s = Some (True, emit_menuChanged t) \<and> P t"
proof -
  let ?idx = "QMap_value (m_indexMap s) ident 0"
  define s1 where "s1 = (if QMap_contains updates (QString ''title'')
                then assign ?idx (\<lambda>item. item\<lparr>label :=
                          toString cv (QMap_value updates (QString ''label'') VInvalid)\<rparr>) s
                else s)"
  define s2 where "s2 = (if QMap_contains updates (QString ''icon'')
                then assign ?idx (\<lambda>item. item\<lparr>icon :=
                          toString cv (QMap_value updates (QString ''icon'') VInvalid)\<rparr>) s1
                else s1)"
  define s3 where "s3 = (if QMap_contains updates (QString ''route'')
                then assign ?idx (\<lambda>item. item\<lparr>route :=
                          toString cv (QMap_value updates (QString ''route'') VInvalid)\<rparr>) s2
                else s2)"
  define s4 where "s4 = (if QMap_contains updates (QString ''order'')
                then rebuildIndexMap (sortItems (assign ?idx (\<lambda>item. item\<lparr>order :=
                          toInt cv (QMap_value updates (QString ''order'') VInvalid)\<rparr>) s3))
                else s3)"
  define s5 where "s5 = (if QMap_contains updates (QString ''enabled'')
                then assign ?idx (\<lambda>item. item\<lparr>enabled :=
                          toBool cv (QMap_value updates (QString ''enabled'') VInvalid)\<rparr>) s4
                else s4)"
  define s6 where "s6 = (if QMap_contains updates (QString ''badge'')
                then assign ?idx (\<lambda>item. item\<lparr>badge :=
                          toString cv (QMap_value updates (QString ''badge'') VInvalid)\<rparr>) s5
                else s5)"
  define s7 where "s7 = (if QMap_contains updates (QString ''group'')
                then assign ?idx (\<lambda>item. item\<lparr>group_MenuItem :=
                          toString cv (QMap_value updates (QString ''group'') VInvalid)\<rparr>) s6
                else s6)"
  have p1: "P s1"
    using P1 by (simp add: s1_def)
  have p2: "P s2"
    unfolding s2_def using p1 by (simp add: A)
  have p3: "P s3"
    unfolding s3_def using p2 by (simp add: A)
  have p4: "P s4"
    unfolding s4_def using p3 by (simp add: A S)
  have p5: "P s5"
    unfolding s5_def using p4 by (simp add: A)
  have p6: "P s6"
    unfolding s6_def using p5 by (simp add: A)
  have p7: "P s7"
    unfolding s7_def using p6 by (simp add: A)
  have "updateItem cv ident updates s = Some (True, emit_menuChanged s7)"
    unfolding updateItem_def Let_def s7_def s6_def s5_def s4_def s3_def s2_def s1_def
    using c r by simp
  with p7 show ?thesis
    by blast
qed

lemma map_assign:
  "(\<And>x. g (f x) = g x) \<Longrightarrow> map g (xs[i := f (xs ! i)]) = map g xs"
  by (induction xs arbitrary: i) (auto split: nat.splits)

lemma find_map_of:
  "map_option label (find (\<lambda>item. qstring_equal (id_MenuItem item) ident) xs) =
     map_of (map (\<lambda>x. (constData (id_MenuItem x), label x)) xs) (constData ident)"
  by (induction xs) (auto simp: qstring_equal_def)

lemma labelOf_map_of:
  "labelOf ident s =
     map_of (map (\<lambda>x. (constData (id_MenuItem x), label x)) (m_items s)) (constData ident)"
  unfolding labelOf_def by (rule find_map_of)

lemma menu_inv_assign:
  assumes "menu_inv t" "\<And>x. id_MenuItem (f x) = id_MenuItem x"
  shows "menu_inv (assign idx f t)"
proof -
  have "map id_MenuItem ((m_items t)[idx := f (m_items t ! idx)]) = map id_MenuItem (m_items t)"
    by (rule map_assign) (rule assms(2))
  moreover have "map (\<lambda>item. constData (id_MenuItem item)) ((m_items t)[idx := f (m_items t ! idx)]) =
      map (\<lambda>item. constData (id_MenuItem item)) (m_items t)"
    by (rule map_assign) (simp add: assms(2))
  ultimately show ?thesis
    using assms(1) by (simp add: menu_inv_def)
qed

lemma menu_inv_sort: "menu_inv t \<Longrightarrow> menu_inv (rebuildIndexMap (sortItems t))"
  by (simp add: menu_inv_def m_indexMap_rebuildIndexMap distinct_map_stable_sort)

lemma menu_inv_emit: "menu_inv t \<Longrightarrow> menu_inv (emit_menuChanged t)"
  by (simp add: menu_inv_def)

lemma updateItem_menu_inv:
  assumes "menu_inv s"
  shows "\<exists>r s'. updateItem cv ident updates s = Some (r, s') \<and> menu_inv s'"
proof (cases "QMap_contains (m_indexMap s) ident")
  case False
  with assms show ?thesis
    by (auto simp: updateItem_unknown)
next
  case True
  have "\<exists>t. updateItem cv ident updates s = Some (True, emit_menuChanged t) \<and> menu_inv t"
  proof (rule updateItem_rule [OF True])
    show "QMap_value (m_indexMap s) ident 0 < length (m_items s)"
      using assms True by (rule menu_inv_index)
  qed (simp_all add: assms menu_inv_assign menu_inv_sort)
  then show ?thesis
    using menu_inv_emit by blast
qed

lemma updateItem_known_emits:
  assumes "menu_inv s" "QMap_contains (m_indexMap s) ident"
  shows "\<exists>s'. updateItem cv ident updates s = Some (True, s') \<and> menuChanged s' = menuChanged s + 1"
proof -
  have "\<exists>t. updateItem cv ident updates s = Some (True, emit_menuChanged t)
          \<and> menuChanged t = menuChanged s"
  proof (rule updateItem_rule [OF assms(2)])
    show "QMap_value (m_indexMap s) ident 0 < length (m_items s)"
      using assms by (rule menu_inv_index)
  qed simp_all
  then obtain t where "updateItem cv ident updates s = Some (True, emit_menuChanged t)"
    "menuChanged (emit_menuChanged t) = menuChanged s + 1"
    by auto
  then show ?thesis
    by blast
qed

text \<open>
  Claim C9, as amended. A successful \<open>registerItem\<close>, an \<open>unregisterItem\<close> of an id in the
  list, an \<open>unregisterPlugin\<close> that matches an item and an \<open>updateItem\<close> of an id in the list
  each emit \<open>menuChanged\<close> once, and the first three change the length of the list. A failed
  \<open>registerItem\<close> emits nothing and leaves the list as it was; an \<open>unregisterItem\<close> or
  \<open>updateItem\<close> of an unknown id and an \<open>unregisterPlugin\<close> that matches no item leave the
  whole state as it was. Whether a successful \<open>updateItem\<close> changes the list is not part
  of the statement.
\<close>

theorem menuChanged_raised:
  assumes "menu_inv s"
  shows "(fst (registerItem item s) \<longrightarrow>
            menuChanged (snd (registerItem item s)) = menuChanged s + 1
            \<and> length (m_items (snd (registerItem item s))) = length (m_items s) + 1)
       \<and> (\<not> fst (registerItem item s) \<longrightarrow>
            menuChanged (snd (registerItem item s)) = menuChanged s
            \<and> m_items (snd (registerItem item s)) = m_items s)
       \<and> ((\<exists>x \<in> set (m_items s). qstring_equal (id_MenuItem x) ident) \<longrightarrow>
            menuChanged (unregisterItem ident s) = menuChanged s + 1
            \<and> length (m_items (unregisterItem ident s)) < length (m_items s))
       \<and> (\<not> (\<exists>x \<in> set (m_items s). qstring_equal (id_MenuItem x) ident) \<longrightarrow>
            unregisterItem ident s = s)
       \<and> ((\<exists>x \<in> set (m_items s). qstring_equal (pluginId x) plugin) \<longrightarrow>
            menuChanged (unregisterPlugin plugin s) = menuChanged s + 1
            \<and> length (m_items (unregisterPlugin plugin s)) < length (m_items s))
       \<and> (\<not> (\<exists>x \<in> set (m_items s). qstring_equal (pluginId x) plugin) \<longrightarrow>
            unregisterPlugin plugin s = s)
       \<and> ((\<exists>x \<in> set (m_items s). qstring_equal (id_MenuItem x) ident) \<longrightarrow>
            (\<exists>s'. updateItem cv ident updates s = Some (True, s')
                  \<and> menuChanged s' = menuChanged s + 1))
       \<and> (\<not> (\<exists>x \<in> set (m_items s). qstring_equal (id_MenuItem x) ident) \<longrightarrow>
            updateItem cv ident updates s = Some (False, s))"
proof -
  have reg: "(fst (registerItem item s) \<longrightarrow>
            menuChanged (snd (registerItem item s)) = menuChanged s + 1
            \<and> length (m_items (snd (registerItem item s))) = length (m_items s) + 1)
       \<and> (\<not> fst (registerItem item s) \<longrightarrow>
            menuChanged (snd (registerItem item s)) = menuChanged s
            \<and> m_items (snd (registerItem item s)) = m_items s)"
    using registerItem_rejected [of item s] registerItem_accepted [of item s]
    by (cases "isEmpty (id_MenuItem item) \<or> QMap_contains (m_indexMap s) (id_MenuItem item)")
       (simp_all add: length_stable_sort)
  have c: "QMap_contains (m_indexMap s) ident =
        (\<exists>x \<in> set (m_items s). qstring_equal (id_MenuItem x) ident)"
    using assms by (rule menu_inv_contains)
  have upd: "(\<exists>x \<in> set (m_items s). qstring_equal (id_MenuItem x) ident) \<longrightarrow>
            (\<exists>s'. updateItem cv ident updates s = Some (True, s')
                  \<and> menuChanged s' = menuChanged s + 1)"
    using updateItem_known_emits [OF assms, of ident cv updates] c by simp
  have upd': "\<not> (\<exists>x \<in> set (m_items s). qstring_equal (id_MenuItem x) ident) \<longrightarrow>
            updateItem cv ident updates s = Some (False, s)"
    using updateItem_unknown [of s ident cv updates] c by simp
  show ?thesis
    using reg upd upd' unregisterItem_known(3,4) [of s ident] unregisterItem_unknown [of s ident]
      unregisterPlugin_known(3,4) [of s plugin] unregisterPlugin_unknown [of s plugin]
    by blast
qed


lemma map_of_update_distinct:
  assumes "distinct (map fst xs)" "i < length xs" "fst (xs ! i) = k"
  shows "map_of (xs[i := (k, v)]) k = Some v"
proof -
  have "map fst (xs[i := (k, v)]) = map fst xs"
    using assms(2,3) by (simp add: map_update list_update_same_conv)
  then have "distinct (map fst (xs[i := (k, v)]))"
    using assms(1) by simp
  moreover have "(k, v) \<in> set (xs[i := (k, v)])"
    using assms(2) by (simp add: set_update_memI)
  ultimately show ?thesis
    by simp
qed

lemma map_of_stable_sort:
  assumes "distinct (map (\<lambda>x. constData (id_MenuItem x)) xs)"
  shows "map_of (map (\<lambda>x. (constData (id_MenuItem x), label x)) (stable_sort c xs)) =
         map_of (map (\<lambda>x. (constData (id_MenuItem x), label x)) xs)"
proof -
  have "distinct (map fst (map (\<lambda>x. (constData (id_MenuItem x), label x)) xs))"
    using assms by (simp add: o_def)
  moreover have "distinct (map fst (map (\<lambda>x. (constData (id_MenuItem x), label x)) (stable_sort c xs)))"
    using assms by (simp add: o_def distinct_map_stable_sort)
  moreover have "set (map (\<lambda>x. (constData (id_MenuItem x), label x)) (stable_sort c xs)) =
        set (map (\<lambda>x. (constData (id_MenuItem x), label x)) xs)"
    by (simp add: set_stable_sort)
  ultimately show ?thesis
    by (simp only: map_of_inject_set)
qed

text \<open>
  Claim C10. For an id in the list, \<open>updateItem\<close> succeeds, and afterwards the label of the
  item with that id is: unchanged when the updates have no key \<open>title\<close> (whether or not
  they have a key \<open>label\<close>); the string of the value stored under the key \<open>label\<close> when
  they have a key \<open>title\<close>, which is the null (empty) string when the key \<open>label\<close> is
  absent and the stored string when the value is a string.
\<close>

theorem updateItem_label:
  assumes "menu_inv s"
    and "\<exists>x \<in> set (m_items s). qstring_equal (id_MenuItem x) ident"
  shows "(\<exists>s'. updateItem cv ident updates s = Some (True, s')
            \<and> labelOf ident s' =
                (if QMap_contains updates (QString ''title'')
                 then Some (toString cv (QMap_value updates (QString ''label'') VInvalid))
                 else labelOf ident s))
       \<and> (\<not> QMap_contains updates (QString ''label'') \<longrightarrow>
            toString cv (QMap_value updates (QString ''label'') VInvalid) = NullQString)
       \<and> (\<forall>v. QMap_find updates (QString ''label'') = Some (VString v) \<longrightarrow>
            toString cv (QMap_value updates (QString ''label'') VInvalid) = v)"
proof -
  let ?idx = "QMap_value (m_indexMap s) ident 0"
  let ?new = "toString cv (QMap_value updates (QString ''label'') VInvalid)"
  let ?L = "if QMap_contains updates (QString ''title'') then Some ?new else labelOf ident s"
  let ?P = "\<lambda>t. distinct (map (\<lambda>x. constData (id_MenuItem x)) (m_items t)) \<and> labelOf ident t = ?L"
  have c: "QMap_contains (m_indexMap s) ident"
    using assms by (simp add: menu_inv_contains)
  have lt: "?idx < length (m_items s)"
    and eq: "qstring_equal (id_MenuItem (m_items s ! ?idx)) ident"
    using assms(1) c by (rule menu_inv_index)+
  have d: "distinct (map (\<lambda>x. constData (id_MenuItem x)) (m_items s))"
    using assms(1) by (simp add: menu_inv_def)
  have "\<exists>t. updateItem cv ident updates s = Some (True, emit_menuChanged t) \<and> ?P t"
  proof (rule updateItem_rule [OF c lt])
    show "?P (if QMap_contains updates (QString ''title'')
              then assign ?idx (\<lambda>item. item\<lparr>label := ?new\<rparr>) s else s)"
    proof (cases "QMap_contains updates (QString ''title'')")
      case False
      with d show ?thesis by simp
    next
      case True
      let ?xs = "map (\<lambda>x. (constData (id_MenuItem x), label x)) (m_items s)"
      have ids: "map (\<lambda>x. constData (id_MenuItem x)) ((m_items s)[?idx := (m_items s ! ?idx)\<lparr>label := ?new\<rparr>]) =
            map (\<lambda>x. constData (id_MenuItem x)) (m_items s)"
        by (rule map_assign) simp
      have "map (\<lambda>x. (constData (id_MenuItem x), label x))
              ((m_items s)[?idx := (m_items s ! ?idx)\<lparr>label := ?new\<rparr>]) =
            ?xs[?idx := (constData ident, ?new)]"
        using eq by (simp add: map_update qstring_equal_def)
      moreover have "map_of (?xs[?idx := (constData ident, ?new)]) (constData ident) = Some ?new"
        using d lt eq by (intro map_of_update_distinct) (simp_all add: o_def qstring_equal_def)
      ultimately have "labelOf ident (assign ?idx (\<lambda>item. item\<lparr>label := ?new\<rparr>) s) = Some ?new"
        by (simp add: labelOf_map_of)
      with True d ids show ?thesis
        by simp
    qed
  next
    fix t and f :: "MenuItem \<Rightarrow> MenuItem"
    assume p: "?P t" and f: "\<And>x. id_MenuItem (f x) = id_MenuItem x \<and> label (f x) = label x"
    have "map (\<lambda>x. constData (id_MenuItem x)) ((m_items t)[?idx := f (m_items t ! ?idx)]) =
          map (\<lambda>x. constData (id_MenuItem x)) (m_items t)"
      by (rule map_assign) (simp add: f)
    moreover have "map (\<lambda>x. (constData (id_MenuItem x), label x)) ((m_items t)[?idx := f (m_items t ! ?idx)]) =
          map (\<lambda>x. (constData (id_MenuItem x), label x)) (m_items t)"
      by (rule map_assign) (simp add: f)
    ultimately show "?P (assign ?idx f t)"
      using p by (simp add: labelOf_map_of)
  next
    fix t
    assume p: "?P t"
    then show "?P (rebuildIndexMap (sortItems t))"
      by (simp add: labelOf_map_of distinct_map_stable_sort map_of_stable_sort)
  qed
  then obtain t where "updateItem cv ident updates s = Some (True, emit_menuChanged t)"
    and "labelOf ident (emit_menuChanged t) = ?L"
    by (auto simp: labelOf_def)
  then have "\<exists>s'. updateItem cv ident updates s = Some (True, s') \<and> labelOf ident s' = ?L"
    by blast
  moreover have "\<not> QMap_contains updates (QString ''label'') \<longrightarrow> ?new = NullQString"
    by (simp add: QMap_contains_def QMap_value_def toString_def)
  moreover have "\<forall>v. QMap_find updates (QString ''label'') = Some (VString v) \<longrightarrow> ?new = v"
    by (simp add: QMap_value_def toString_def)
  ultimately show ?thesis
    by blast
qed


subsection \<open>Reachable states\<close>

lemma menu_inv_new: "menu_inv MenuService"
  by (simp add: menu_inv_def MenuService_def index_of_def)

lemma reachable_menu_inv: "reachable cv s \<Longrightarrow> menu_inv s"
proof (induction rule: reachable.induct)
  case reachable_new
  show ?case by (rule menu_inv_new)
next
  case (reachable_registerItem s item)
  then show ?case by (simp add: registerItem_menu_inv)
next
  case (reachable_unregisterItem s ident)
  then show ?case by (simp add: unregisterItem_menu_inv)
next
  case (reachable_unregisterPlugin s plugin)
  then show ?case by (simp add: unregisterPlugin_menu_inv)
next
  case (reachable_updateItem s ident updates r s')
  then show ?case
    using updateItem_menu_inv [of s cv ident updates] by auto
qed

lemma reachable_updateItem_returns:
  "reachable cv s \<Longrightarrow> \<exists>r s'. updateItem cv ident updates s = Some (r, s')"
  using updateItem_menu_inv [of s cv ident updates] reachable_menu_inv [of cv s] by blast

subsection \<open>Order of the list\<close>

lemma sortItems_less_asym: "sortItems_less a b \<Longrightarrow> \<not> sortItems_less b a"
  by (auto simp: sortItems_less_def qstring_less_def qstring_equal_def split: if_splits)

lemma sortItems_le_trans:
  "\<not> sortItems_less b a \<Longrightarrow> \<not> sortItems_less c b \<Longrightarrow> \<not> sortItems_less c a"
  by (auto simp: sortItems_less_def qstring_less_def qstring_equal_def split: if_splits)

lemma sorted_stable_insert:
  assumes "sorted_wrt (\<lambda>a b. \<not> sortItems_less b a) ys"
  shows "sorted_wrt (\<lambda>a b. \<not> sortItems_less b a) (stable_insert sortItems_less x ys)"
  using assms
proof (induction ys)
  case Nil
  then show ?case by simp
next
  case (Cons y ys)
  show ?case
  proof (cases "sortItems_less y x")
    case True
    then have "\<not> sortItems_less x y"
      by (rule sortItems_less_asym)
    with True Cons show ?thesis
      by (auto simp: set_stable_insert)
  next
    case False
    have "\<not> sortItems_less z x" if "z \<in> set ys" for z
    proof -
      from that Cons.prems have "\<not> sortItems_less z y" by simp
      with False show ?thesis by (rule sortItems_le_trans)
    qed
    with False Cons.prems show ?thesis
      by simp
  qed
qed

lemma sorted_stable_sort:
  "sorted_wrt (\<lambda>a b. \<not> sortItems_less b a) (stable_sort sortItems_less xs)"
  unfolding stable_sort_def by (induction xs) (simp_all add: sorted_stable_insert)

lemma registerItem_sorted:
  "fst (registerItem item s) \<Longrightarrow> items_sorted (snd (registerItem item s))"
  using registerItem_rejected [of item s] registerItem_accepted [of item s]
  by (cases "isEmpty (id_MenuItem item) \<or> QMap_contains (m_indexMap s) (id_MenuItem item)")
     (simp_all add: items_sorted_def sorted_stable_sort)

lemma sorted_wrt_erase:
  assumes "sorted_wrt R xs"
  shows "sorted_wrt R (erase i xs)"
proof -
  from assms have "sorted_wrt R (take i xs @ drop i xs)"
    by (simp only: append_take_drop_id)
  then have t: "sorted_wrt R (take i xs)"
    and c: "\<forall>x \<in> set (take i xs). \<forall>y \<in> set (drop i xs). R x y"
    by (auto simp only: sorted_wrt_append)
  have d: "sorted_wrt R (drop (Suc i) xs)"
    using assms by (rule sorted_wrt_drop)
  have "set (drop (Suc i) xs) \<subseteq> set (drop i xs)"
    by (rule set_drop_subset_set_drop) simp
  with c have "\<forall>x \<in> set (take i xs). \<forall>y \<in> set (drop (Suc i) xs). R x y"
    by blast
  with t d show ?thesis
    by (simp add: erase_def sorted_wrt_append)
qed

lemma unregisterItem_sorted: "items_sorted s \<Longrightarrow> items_sorted (unregisterItem ident s)"
  using unregisterItem_unknown [of s ident] unregisterItem_known(1) [of s ident]
  by (cases "\<exists>x \<in> set (m_items s). qstring_equal (id_MenuItem x) ident")
     (simp_all add: items_sorted_def sorted_wrt_erase)

lemma unregisterPlugin_sorted: "items_sorted s \<Longrightarrow> items_sorted (unregisterPlugin plugin s)"
  using unregisterPlugin_unknown [of s plugin] unregisterPlugin_known(1) [of s plugin]
  by (cases "\<exists>x \<in> set (m_items s). qstring_equal (pluginId x) plugin")
     (simp_all add: items_sorted_def sorted_wrt_filter)

lemmas menu_eval =
  registerItem_def menu_entry_def MenuService_def isEmpty_def size_QString_def
  QMap_contains_def QMap_value_def Let_def sortItems_def rebuildIndexMap_def qDebug_def qWarning_def
  emit_menuChanged_def deepCopyItem_def deepCopy_QString_def QString_from_def stable_sort_def
  sortItems_less_def qstring_equal_def qstring_less_def items_def upt_rec updateItem_def assign_def
  toString_def toInt_def toBool_def default_convert_def

lemma registerItem_example_order:
  "map (\<lambda>x. (constData (group_MenuItem x), order x))
     (items (snd (registerItem (menu_entry ''c'' ''A'' 1)
              (snd (registerItem (menu_entry ''b'' ''A'' 2)
                (snd (registerItem (menu_entry ''a'' ''B'' 1) MenuService)))))))
   = [(''A'', 1), (''A'', 2), (''B'', 1)]"
  by (simp add: menu_eval)

text \<open>
  Claim C3 fails on the code. After two registrations the list is sorted; \<open>updateItem\<close>
  with a new group then writes the group of the first item and does not sort, and the
  list it leaves, groups C and B in this order, is not sorted.
\<close>

theorem updateItem_group_unsorted:
  "reachable default_convert
     (snd (registerItem (menu_entry ''b'' ''B'' 1)
        (snd (registerItem (menu_entry ''a'' ''A'' 1) MenuService))))
   \<and> items_sorted
     (snd (registerItem (menu_entry ''b'' ''B'' 1)
        (snd (registerItem (menu_entry ''a'' ''A'' 1) MenuService))))
   \<and> map_option (\<lambda>r. (fst r, map (\<lambda>x. (constData (id_MenuItem x), constData (group_MenuItem x), order x))
                              (m_items (snd r)), items_sorted (snd r)))
       (updateItem default_convert (QString ''a'') [(QString ''group'', VString (QString ''C''))]
         (snd (registerItem (menu_entry ''b'' ''B'' 1)
            (snd (registerItem (menu_entry ''a'' ''A'' 1) MenuService)))))
     = Some (True, [(''a'', ''C'', 1), (''b'', ''B'', 1)], False)"
proof -
  have "reachable default_convert
     (snd (registerItem (menu_entry ''b'' ''B'' 1)
        (snd (registerItem (menu_entry ''a'' ''A'' 1) MenuService))))"
    by (intro reachable_registerItem reachable_new)
  moreover have "items_sorted
     (snd (registerItem (menu_entry ''b'' ''B'' 1)
        (snd (registerItem (menu_entry ''a'' ''A'' 1) MenuService))))"
    by (simp add: menu_eval items_sorted_def)
  moreover have "map_option (\<lambda>r. (fst r, map (\<lambda>x. (constData (id_MenuItem x), constData (group_MenuItem x), order x))
                              (m_items (snd r)), items_sorted (snd r)))
       (updateItem default_convert (QString ''a'') [(QString ''group'', VString (QString ''C''))]
         (snd (registerItem (menu_entry ''b'' ''B'' 1)
            (snd (registerItem (menu_entry ''a'' ''A'' 1) MenuService)))))
     = Some (True, [(''a'', ''C'', 1), (''b'', ''B'', 1)], False)"
    by (simp add: menu_eval items_sorted_def)
  ultimately show ?thesis
    by blast
qed

text \<open>
  Claim C9 as stated fails: \<open>updateItem\<close> of a registered id with no updates leaves the
  item list as it was and still emits \<open>menuChanged\<close>.
\<close>

theorem updateItem_empty_counterexample:
  "updateItem default_convert (QString ''a'') []
     (snd (registerItem (menu_entry ''a'' ''A'' 1) MenuService))
     = Some (True, emit_menuChanged (snd (registerItem (menu_entry ''a'' ''A'' 1) MenuService)))
   \<and> m_items (emit_menuChanged (snd (registerItem (menu_entry ''a'' ''A'' 1) MenuService)))
     = m_items (snd (registerItem (menu_entry ''a'' ''A'' 1) MenuService))
   \<and> menuChanged (emit_menuChanged (snd (registerItem (menu_entry ''a'' ''A'' 1) MenuService)))
     = menuChanged (snd (registerItem (menu_entry ''a'' ''A'' 1) MenuService)) + 1"
  by (simp add: menu_eval)


theorem registerItem_result_witness:
  "fst (registerItem (menu_entry ''rules'' ''Business'' 20) MenuService) = True
   \<and> map (\<lambda>x. constData (id_MenuItem x))
       (m_items (snd (registerItem (menu_entry ''rules'' ''Business'' 20) MenuService))) = [''rules'']
   \<and> fst (registerItem (menu_entry ''rules'' ''Other'' 5)
           (snd (registerItem (menu_entry ''rules'' ''Business'' 20) MenuService))) = False
   \<and> fst (registerItem (menu_entry [] ''Business'' 20) MenuService) = False"
  using registerItem_result [OF menu_inv_new, of "menu_entry ''rules'' ''Business'' 20"]
    registerItem_result [OF registerItem_menu_inv [OF menu_inv_new],
      of "menu_entry ''rules'' ''Business'' 20" "menu_entry ''rules'' ''Other'' 5"]
    registerItem_result [OF menu_inv_new, of "menu_entry [] ''Business'' 20"]
  by (simp add: menu_eval)

theorem menuChanged_raised_witness:
  "menuChanged (snd (registerItem (menu_entry ''rules'' ''Business'' 20) MenuService)) = 1
   \<and> menuChanged (unregisterItem (QString ''rules'')
        (snd (registerItem (menu_entry ''rules'' ''Business'' 20) MenuService))) = 2
   \<and> menuChanged (unregisterPlugin (QString ''com.biiz.rules'')
        (snd (registerItem (menu_entry ''rules'' ''Business'' 20) MenuService))) = 2
   \<and> map_option (\<lambda>r. (fst r, menuChanged (snd r)))
        (updateItem default_convert (QString ''rules'') [(QString ''badge'', VString (QString ''2''))]
           (snd (registerItem (menu_entry ''rules'' ''Business'' 20) MenuService))) = Some (True, 2)
   \<and> updateItem default_convert (QString ''orders'') [(QString ''badge'', VString (QString ''2''))]
        (snd (registerItem (menu_entry ''rules'' ''Business'' 20) MenuService))
      = Some (False, snd (registerItem (menu_entry ''rules'' ''Business'' 20) MenuService))"
  using menuChanged_raised [OF menu_inv_new, of "menu_entry ''rules'' ''Business'' 20"
      "QString ''rules''" "QString ''com.biiz.rules''" default_convert "[]"]
    menuChanged_raised [OF registerItem_menu_inv [OF menu_inv_new],
      of "menu_entry ''rules'' ''Business'' 20" "menu_entry ''rules'' ''Business'' 20"
      "QString ''rules''" "QString ''com.biiz.rules''" default_convert
      "[(QString ''badge'', VString (QString ''2''))]"]
  by (simp add: menu_eval unregisterItem_def unregisterPlugin_def erase_def remove_if_def QMap_remove_def)

theorem updateItem_label_witness:
  "map_option (\<lambda>r. (fst r, labelOf (QString ''rules'') (snd r)))
     (updateItem default_convert (QString ''rules'')
        [(QString ''label'', VString (QString ''Policies''))]
        (snd (registerItem (menu_entry ''rules'' ''Business'' 20) MenuService)))
     = Some (True, Some (QString ''rules''))
   \<and> labelOf (QString ''rules'') (snd (registerItem (menu_entry ''rules'' ''Business'' 20) MenuService))
     = Some (QString ''rules'')"
proof -
  have inv: "menu_inv (snd (registerItem (menu_entry ''rules'' ''Business'' 20) MenuService))"
    using menu_inv_new by (rule registerItem_menu_inv)
  have known: "\<exists>x \<in> set (m_items (snd (registerItem (menu_entry ''rules'' ''Business'' 20) MenuService))).
      qstring_equal (id_MenuItem x) (QString ''rules'')"
    by (simp add: menu_eval)
  have unchanged: "labelOf (QString ''rules'')
        (snd (registerItem (menu_entry ''rules'' ''Business'' 20) MenuService)) = Some (QString ''rules'')"
    by (simp add: menu_eval labelOf_def)
  have absent: "\<not> QMap_contains [(QString ''label'', VString (QString ''Policies''))] (QString ''title'')"
    by (simp add: QMap_contains_def qstring_equal_def)
  show ?thesis
    using updateItem_label [OF inv known, of default_convert
        "[(QString ''label'', VString (QString ''Policies''))]"] absent unchanged
    by auto
qed

lemma updateItem_label_title_example:
  "map_option (\<lambda>r. labelOf (QString ''rules'') (snd r))
     (updateItem default_convert (QString ''rules'')
        [(QString ''label'', VString (QString ''Policies'')), (QString ''title'', VString (QString ''T''))]
        (snd (registerItem (menu_entry ''rules'' ''Business'' 20) MenuService)))
     = Some (Some (QString ''Policies''))
   \<and> map_option (\<lambda>r. labelOf (QString ''rules'') (snd r))
     (updateItem default_convert (QString ''rules'') [(QString ''title'', VString (QString ''T''))]
        (snd (registerItem (menu_entry ''rules'' ''Business'' 20) MenuService)))
     = Some (Some NullQString)"
  by (simp add: menu_eval labelOf_def)

section \<open>Properties of the deep copy\<close>

lemma qstring_equal_refl: "qstring_equal s s"
  by (simp add: qstring_equal_def)

lemma qbytearray_equal_deepCopy: "qbytearray_equal (deepCopy_QByteArray ba) ba"
  by (cases ba)
     (simp_all add: qbytearray_equal_def deepCopy_QByteArray_def isEmpty_QByteArray_def
        size_QByteArray_def QByteArray_from_def)

lemma deepCopy_QByteArray_idem: "deepCopy_QByteArray (deepCopy_QByteArray ba) = deepCopy_QByteArray ba"
  by (cases ba)
     (simp_all add: deepCopy_QByteArray_def isEmpty_QByteArray_def
        size_QByteArray_def QByteArray_from_def)

lemma equals_refl: "equals v v"
proof (induction v)
  case (VMap m)
  have "list_all2 (\<lambda>(k, v) (k', v'). qstring_equal k k' \<and> equals v v') m m"
    using VMap by (intro list_all2_same [THEN iffD2]) (auto simp: qstring_equal_refl)
  then show ?case by simp
next
  case (VList l)
  then show ?case by (simp add: list_all2_same)
qed (simp_all add: qstring_equal_refl list_all2_same qbytearray_equal_def)

subsection \<open>Sorted maps\<close>

lemma QMap_sorted_iff: "QMap_sorted m = sorted_wrt (\<lambda>e e'. qstring_less (fst e) (fst e')) m"
proof (induction m rule: QMap_sorted.induct)
  case (3 e e' rest)
  have "qstring_less (fst e) (fst x)"
    if "qstring_less (fst e) (fst e')" "qstring_less (fst e') (fst x)" for x
    using that by (simp add: qstring_less_def)
  with 3 show ?case by auto
qed simp_all

lemma QMap_insert_last:
  "\<forall>e \<in> set acc. qstring_less (fst e) k \<Longrightarrow> QMap_insert k v acc = acc @ [(k, v)]"
  by (induction acc) (auto simp: qstring_less_def)

lemma foldl_insert_sorted:
  assumes "sorted_wrt (\<lambda>e e'. qstring_less (fst e) (fst e')) m"
    and "\<forall>e \<in> set acc. \<forall>e' \<in> set m. qstring_less (fst e) (fst e')"
    and "\<And>k. constData (f k) = constData k"
  shows "foldl (\<lambda>result (k, v). QMap_insert (f k) (g v) result) acc m =
         acc @ map (\<lambda>(k, v). (f k, g v)) m"
  using assms(1,2)
proof (induction m arbitrary: acc)
  case Nil
  then show ?case by simp
next
  case (Cons e m)
  obtain k v where e: "e = (k, v)" by (cases e)
  have ins: "QMap_insert (f k) (g v) acc = acc @ [(f k, g v)]"
    using Cons.prems(2) e by (intro QMap_insert_last) (simp add: qstring_less_def assms(3))
  have "foldl (\<lambda>result (k, v). QMap_insert (f k) (g v) result) (acc @ [(f k, g v)]) m =
        (acc @ [(f k, g v)]) @ map (\<lambda>(k, v). (f k, g v)) m"
    using Cons.prems e by (intro Cons.IH) (auto simp: qstring_less_def assms(3))
  then show ?case
    by (simp add: e ins)
qed


lemma foldl_insert_sorted_map:
  assumes "QMap_sorted m" and "\<And>k. constData (f k) = constData k"
  shows "foldl (\<lambda>result (k, v). QMap_insert (f k) (g v) result) [] m = map (\<lambda>(k, v). (f k, g v)) m"
  using foldl_insert_sorted [of m "[]" f g] assms by (simp add: QMap_sorted_iff)

lemma deepCopy_QVariantMap_sorted:
  "QMap_sorted m \<Longrightarrow>
   deepCopy_QVariantMap m = map (\<lambda>(k, v). (deepCopy_QString k, deepCopy v)) m"
  by (simp add: deepCopy_QVariantMap.simps foldl_insert_sorted_map constData_deepCopy_QString)

lemma keys_QMap_insert:
  "constData ` fst ` set (QMap_insert k v m) = insert (constData k) (constData ` fst ` set m)"
proof (induction m)
  case Nil
  then show ?case by simp
next
  case (Cons e m)
  obtain k' v' where e: "e = (k', v')" by (cases e)
  consider "qstring_less k k'" | "\<not> qstring_less k k'" "qstring_less k' k"
    | "\<not> qstring_less k k'" "\<not> qstring_less k' k"
    by blast
  then show ?case
  proof cases
    case 1
    then show ?thesis by (simp add: e)
  next
    case 2
    then show ?thesis by (simp add: e Cons.IH insert_commute)
  next
    case 3
    then have "constData k = constData k'"
      unfolding qstring_less_def by (rule_tac antisym) simp_all
    with 3 show ?thesis by (simp add: e)
  qed
qed

lemma sorted_QMap_insert:
  assumes "sorted_wrt (\<lambda>e e'. qstring_less (fst e) (fst e')) m"
  shows "sorted_wrt (\<lambda>e e'. qstring_less (fst e) (fst e')) (QMap_insert k v m)"
  using assms
proof (induction m)
  case Nil
  then show ?case by simp
next
  case (Cons e m)
  obtain k' v' where e: "e = (k', v')" by (cases e)
  show ?case
  proof (cases "qstring_less k k'")
    case True
    have "qstring_less k (fst x)" if "x \<in> set m" for x
      using that Cons.prems True e by (auto simp: qstring_less_def)
    with True Cons.prems show ?thesis
      by (simp add: e)
  next
    case nl: False
    show ?thesis
    proof (cases "qstring_less k' k")
      case True
      have "qstring_less k' (fst x)" if "x \<in> set (QMap_insert k v m)" for x
      proof -
        from that have "constData (fst x) \<in> constData ` fst ` set (QMap_insert k v m)"
          by blast
        then have "constData (fst x) = constData k \<or> constData (fst x) \<in> constData ` fst ` set m"
          by (simp add: keys_QMap_insert)
        then show ?thesis
          using True Cons.prems e by (auto simp: qstring_less_def)
      qed
      with True nl Cons show ?thesis
        by (simp add: e)
    next
      case False
      with nl Cons.prems show ?thesis
        by (simp add: e)
    qed
  qed
qed

lemma sorted_foldl_insert:
  "sorted_wrt (\<lambda>e e'. qstring_less (fst e) (fst e')) acc \<Longrightarrow>
   sorted_wrt (\<lambda>e e'. qstring_less (fst e) (fst e'))
     (foldl (\<lambda>result (k, v). QMap_insert (f k) (g v) result) acc m)"
  by (induction m arbitrary: acc) (auto simp: sorted_QMap_insert)

lemma QMap_sorted_deepCopy_QVariantMap: "QMap_sorted (deepCopy_QVariantMap m)"
  by (simp add: deepCopy_QVariantMap.simps QMap_sorted_iff sorted_foldl_insert)

lemma fst_QMap_insert: "fst ` set (QMap_insert k v m) \<subseteq> insert k (fst ` set m)"
proof (induction m)
  case Nil
  then show ?case by simp
next
  case (Cons e m)
  obtain k' v' where e: "e = (k', v')" by (cases e)
  from Cons show ?case
    unfolding e QMap_insert.simps by (simp only: split: if_splits) auto
qed

lemma snd_QMap_insert: "snd ` set (QMap_insert k v m) \<subseteq> insert v (snd ` set m)"
proof (induction m)
  case Nil
  then show ?case by simp
next
  case (Cons e m)
  obtain k' v' where e: "e = (k', v')" by (cases e)
  from Cons show ?case
    unfolding e QMap_insert.simps by (simp only: split: if_splits) auto
qed

lemma fst_foldl_insert:
  "fst ` set (foldl (\<lambda>result (k, v). QMap_insert (f k) (g v) result) acc m)
     \<subseteq> f ` fst ` set m \<union> fst ` set acc"
proof (induction m arbitrary: acc)
  case Nil
  then show ?case by simp
next
  case (Cons x m)
  obtain k v where x: "x = (k, v)" by (cases x)
  have "fst ` set (foldl (\<lambda>result (k, v). QMap_insert (f k) (g v) result)
           (QMap_insert (f k) (g v) acc) m)
       \<subseteq> f ` fst ` set m \<union> fst ` set (QMap_insert (f k) (g v) acc)"
    by (rule Cons.IH)
  also have "\<dots> \<subseteq> f ` fst ` set m \<union> insert (f k) (fst ` set acc)"
    using fst_QMap_insert [of "f k" "g v" acc] by blast
  finally show ?case
    by (auto simp: x)
qed

lemma snd_foldl_insert:
  "snd ` set (foldl (\<lambda>result (k, v). QMap_insert (f k) (g v) result) acc m)
     \<subseteq> g ` snd ` set m \<union> snd ` set acc"
proof (induction m arbitrary: acc)
  case Nil
  then show ?case by simp
next
  case (Cons x m)
  obtain k v where x: "x = (k, v)" by (cases x)
  have "snd ` set (foldl (\<lambda>result (k, v). QMap_insert (f k) (g v) result)
           (QMap_insert (f k) (g v) acc) m)
       \<subseteq> g ` snd ` set m \<union> snd ` set (QMap_insert (f k) (g v) acc)"
    by (rule Cons.IH)
  also have "\<dots> \<subseteq> g ` snd ` set m \<union> insert (g v) (snd ` set acc)"
    using snd_QMap_insert [of "f k" "g v" acc] by blast
  finally show ?case
    by (auto simp: x)
qed

lemma entries_deepCopy_QVariantMap:
  assumes "(k, v) \<in> set (deepCopy_QVariantMap m)"
  shows "k \<in> deepCopy_QString ` fst ` set m" and "v \<in> deepCopy ` snd ` set m"
proof -
  from assms have "k \<in> fst ` set (deepCopy_QVariantMap m)" "v \<in> snd ` set (deepCopy_QVariantMap m)"
    by force+
  then show "k \<in> deepCopy_QString ` fst ` set m" and "v \<in> deepCopy ` snd ` set m"
    using fst_foldl_insert [of deepCopy_QString deepCopy "[]" m]
      snd_foldl_insert [of deepCopy_QString deepCopy "[]" m]
    by (auto simp: deepCopy_QVariantMap.simps)
qed

subsection \<open>Copying twice\<close>

lemma deepCopy_idem:
  shows "deepCopy_QVariantMap (deepCopy_QVariantMap m) = deepCopy_QVariantMap m"
    and "deepCopy_QVariantList (deepCopy_QVariantList l) = deepCopy_QVariantList l"
    and "deepCopy (deepCopy v) = deepCopy v"
proof (induction m and l and v rule: deepCopy_QVariantMap_deepCopy_QVariantList_deepCopy.induct)
  case (1 m)
  let ?r = "deepCopy_QVariantMap m"
  have "deepCopy_QVariantMap ?r = map (\<lambda>(k, v). (deepCopy_QString k, deepCopy v)) ?r"
    using QMap_sorted_deepCopy_QVariantMap by (rule deepCopy_QVariantMap_sorted)
  also have "\<dots> = ?r"
  proof (rule map_idI)
    fix e assume e: "e \<in> set ?r"
    obtain k v where kv: "e = (k, v)" by (cases e)
    with e have "(k, v) \<in> set ?r"
      by simp
    then have "k \<in> deepCopy_QString ` fst ` set m" "v \<in> deepCopy ` snd ` set m"
      by (rule entries_deepCopy_QVariantMap)+
    then obtain k0 x where k0: "k = deepCopy_QString k0" and x: "x \<in> set m" "v = deepCopy (snd x)"
      by auto
    have "deepCopy (deepCopy (snd x)) = deepCopy (snd x)"
      using x(1) prod.collapse by (rule "1.IH")
    with k0 x(2) have "deepCopy_QString k = k" "deepCopy v = v"
      by (simp_all add: deepCopy_QString_idem)
    then show "(case e of (k, v) \<Rightarrow> (deepCopy_QString k, deepCopy v)) = e"
      by (simp add: kv)
  qed
  finally show ?case .
next
  case (2 l)
  then show ?case by (simp add: deepCopy_QVariantList.simps)
qed (simp_all add: deepCopy_QString_idem deepCopy_QStringList_def deepCopy_QByteArray_idem)

subsection \<open>Copying keeps the value\<close>

lemma deepCopy_equals_aux:
  shows "QMap_sorted m \<longrightarrow> list_all (\<lambda>(k, v). wellformed v) m \<longrightarrow>
           list_all2 (\<lambda>(k, v) (k', v'). qstring_equal k k' \<and> equals v v') (deepCopy_QVariantMap m) m"
    and "list_all wellformed l \<longrightarrow> list_all2 equals (deepCopy_QVariantList l) l"
    and "wellformed v \<longrightarrow> equals (deepCopy v) v"
proof (induction m and l and v rule: deepCopy_QVariantMap_deepCopy_QVariantList_deepCopy.induct)
  case (1 m)
  show ?case
  proof (intro impI)
    assume sorted: "QMap_sorted m" and wf: "list_all (\<lambda>(k, v). wellformed v) m"
    have "deepCopy_QVariantMap m = map (\<lambda>(k, v). (deepCopy_QString k, deepCopy v)) m"
      using sorted by (rule deepCopy_QVariantMap_sorted)
    moreover have "list_all2 (\<lambda>(k, v) (k', v'). qstring_equal k k' \<and> equals v v')
        (map (\<lambda>(k, v). (deepCopy_QString k, deepCopy v)) m) m"
      unfolding list_all2_map1
    proof (rule list_all2_same [THEN iffD2], rule ballI)
      fix e assume e: "e \<in> set m"
      obtain k v where kv: "e = (k, v)" by (cases e)
      from e wf have "wellformed v"
        by (auto simp: kv list_all_iff)
      have "wellformed v \<longrightarrow> equals (deepCopy v) v"
        using e kv [symmetric] by (rule "1.IH")
      with \<open>wellformed v\<close> have "equals (deepCopy v) v"
        by simp
      then show "(case case e of (k, v) \<Rightarrow> (deepCopy_QString k, deepCopy v) of
             (k, v) \<Rightarrow> \<lambda>(k', v'). qstring_equal k k' \<and> equals v v') e"
        by (simp add: kv qstring_equal_deepCopy_left qstring_equal_refl)
    qed
    ultimately show "list_all2 (\<lambda>(k, v) (k', v'). qstring_equal k k' \<and> equals v v')
        (deepCopy_QVariantMap m) m"
      by simp
  qed
next
  case (2 l)
  then show ?case
    by (simp add: deepCopy_QVariantList.simps list_all2_map1 list_all2_same list_all_iff)
next
  case 3
  show ?case by simp
next
  case (4 s)
  show ?case by (simp add: qstring_equal_deepCopy_left qstring_equal_refl)
next
  case (5 l)
  show ?case
    by (simp add: deepCopy_QStringList_def list_all2_map1 list_all2_same
        qstring_equal_deepCopy_left qstring_equal_refl)
next
  case (6 ba)
  show ?case by (simp add: qbytearray_equal_deepCopy)
next
  case (7 m)
  then show ?case by simp
next
  case (8 l)
  then show ?case by simp
qed simp_all


text \<open>
  Claim C7. \<open>deepCopy\<close> keeps the value: the copy of a well-formed variant (every map in
  it has its keys in ascending order, as a \<open>QMap\<close> has) is equal to the variant; so are
  the copies of a string, a string list and a byte array. An invalid variant, a
  primitive value and a value of any other kind are returned as they are.
\<close>

theorem deepCopy_value_preserving:
  "(wellformed v \<longrightarrow> equals (deepCopy v) v)
   \<and> deepCopy VInvalid = VInvalid
   \<and> deepCopy (VBool b) = VBool b
   \<and> deepCopy (VInt n) = VInt n
   \<and> deepCopy (VOther t p) = VOther t p
   \<and> qstring_equal (deepCopy_QString s) s
   \<and> list_all2 qstring_equal (deepCopy_QStringList sl) sl
   \<and> qbytearray_equal (deepCopy_QByteArray ba) ba"
  using deepCopy_equals_aux(3) [of v]
  by (simp add: qstring_equal_deepCopy_left qstring_equal_refl deepCopy_QStringList_def
      list_all2_map1 list_all2_same qbytearray_equal_deepCopy)

theorem deepCopy_value_preserving_witness:
  "wellformed (VMap [(QString ''a'', VList [VInt 3, VString (QString [])]),
                     (QString ''b'', VStringList [QString ''x'', QString []])])
   \<and> equals (deepCopy (VMap [(QString ''a'', VList [VInt 3, VString (QString [])]),
                              (QString ''b'', VStringList [QString ''x'', QString []])]))
              (VMap [(QString ''a'', VList [VInt 3, VString (QString [])]),
                     (QString ''b'', VStringList [QString ''x'', QString []])])
   \<and> deepCopy (VMap [(QString ''a'', VList [VInt 3, VString (QString [])]),
                      (QString ''b'', VStringList [QString ''x'', QString []])])
       = VMap [(QString ''a'', VList [VInt 3, VString NullQString]),
               (QString ''b'', VStringList [QString ''x'', NullQString])]"
proof -
  have wf: "wellformed (VMap [(QString ''a'', VList [VInt 3, VString (QString [])]),
                     (QString ''b'', VStringList [QString ''x'', QString []])])"
    by (simp add: qstring_less_def)
  show ?thesis
    using wf deepCopy_value_preserving
      [of "VMap [(QString ''a'', VList [VInt 3, VString (QString [])]),
                 (QString ''b'', VStringList [QString ''x'', QString []])]"]
    by (simp add: deepCopy_QVariantMap.simps deepCopy_QVariantList.simps deepCopy_QStringList_def
        deepCopy_QString_def isEmpty_def size_QString_def QString_from_def qstring_less_def)
qed

text \<open>
  Claim C2. Copying twice gives a value equal to copying once, for a variant, a string,
  a string list, a byte array, a variant list and a variant map; for a variant the two
  results are even the same term.
\<close>

theorem deepCopy_idempotent:
  "equals (deepCopy (deepCopy v)) (deepCopy v)
   \<and> deepCopy (deepCopy v) = deepCopy v
   \<and> qstring_equal (deepCopy_QString (deepCopy_QString s)) (deepCopy_QString s)
   \<and> list_all2 qstring_equal (deepCopy_QStringList (deepCopy_QStringList sl)) (deepCopy_QStringList sl)
   \<and> qbytearray_equal (deepCopy_QByteArray (deepCopy_QByteArray ba)) (deepCopy_QByteArray ba)
   \<and> equals (VList (deepCopy_QVariantList (deepCopy_QVariantList l))) (VList (deepCopy_QVariantList l))
   \<and> equals (VMap (deepCopy_QVariantMap (deepCopy_QVariantMap m))) (VMap (deepCopy_QVariantMap m))"
  by (simp only: deepCopy_idem deepCopy_QString_idem deepCopy_QByteArray_idem equals_refl
      qstring_equal_refl qbytearray_equal_def deepCopy_QStringList_def map_map o_def
      list_all2_same simp_thms ball_triv)

theorem deepCopy_idempotent_witness:
  "deepCopy (deepCopy (VMap [(QString ''b'', VString (QString [])), (QString ''a'', VInt 1)]))
     = VMap [(QString ''a'', VInt 1), (QString ''b'', VString NullQString)]
   \<and> deepCopy (VMap [(QString ''b'', VString (QString [])), (QString ''a'', VInt 1)])
     = VMap [(QString ''a'', VInt 1), (QString ''b'', VString NullQString)]"
  using deepCopy_idempotent
      [of "VMap [(QString ''b'', VString (QString [])), (QString ''a'', VInt 1)]"
          NullQString "[]" NullQByteArray "[]" "[]"]
  by (simp add: deepCopy_QVariantMap.simps deepCopy_QString_def isEmpty_def size_QString_def
      QString_from_def qstring_less_def)


end
